theory Spec2Isabelle
  imports Complex_Main "HOL-Library.Log_Nat"
begin

unbundle bit_operations_syntax

section \<open>The UT803 frame decoder (ut803.py)\<close>

text \<open>
  The multimeter sends one record per measurement. \<^verbatim>\<open>UT803.read\<close> takes the bytes
  that \<^verbatim>\<open>readline()\<close> returned, decodes them as ASCII and turns an 11-character
  line into the tuple \<^verbatim>\<open>(value, unit, meas_type, flags_dict)\<close>.

  Conventions of the embedding:
  \<^item> a Python string is a \<^typ>\<open>string\<close>, one \<^typ>\<open>char\<close> per code point (all strings of the
    program have code points below 256; the degree sign of the temperature units is
    code point 176);
  \<^item> a Python integer is an \<^typ>\<open>int\<close>, and \<^verbatim>\<open>&\<close> is \<open>AND\<close> on \<^typ>\<open>int\<close>;
  \<^item> a Python float is an IEEE-754 double. The arithmetic of \<^verbatim>\<open>read\<close> is done on the type
    \<open>double\<close>, every operation rounded to the nearest double, and the reading carries the
    real number that the resulting double denotes. \<^verbatim>\<open>prettyValueFormat\<close> takes such a real
    number; its comparisons and products are those of the real numbers;
  \<^item> every exception the decoder can raise is a value of \<open>error\<close>, and a function
    that can raise returns \<open>error + 'a\<close>; the \<^verbatim>\<open>None\<close> that \<^verbatim>\<open>read\<close> returns for a line
    of the wrong length is \<open>Inr None\<close>.
\<close>

subsection \<open>Exceptions\<close>

datatype error =
    TypeError string
  | KeyError int
  | ValueError string
  | IndexError
  | UnicodeDecodeError

subsection \<open>chrToInt (lines 24-36)\<close>

definition ord :: "char \<Rightarrow> int" where
  "ord c = of_char c"

definition chrToInt :: "char \<Rightarrow> error + int" where
  "chrToInt c =
     (let num = ord c - 48
      in if 0 \<le> num \<and> num \<le> 15 then Inr num
         else Inl (TypeError ''Invalid numeric character''))"

text \<open>The list comprehension \<^verbatim>\<open>[chrToInt(c) for c in s]\<close>: the first character that
  raises ends it.\<close>

fun chrToInt_each :: "string \<Rightarrow> error + int list" where
  "chrToInt_each [] = Inr []"
| "chrToInt_each (c # cs) =
     (case chrToInt c of
        Inl e \<Rightarrow> Inl e
      | Inr n \<Rightarrow> (case chrToInt_each cs of Inl e \<Rightarrow> Inl e | Inr ns \<Rightarrow> Inr (n # ns)))"

subsection \<open>The tables of class UT803 (lines 39-51, 120-155)\<close>

definition measurement_type_table :: "int \<rightharpoonup> string" where
  "measurement_type_table = map_of
     [(1, ''diode''),
      (2, ''frequency''),
      (3, ''resistance''),
      (4, ''temperature''),
      (5, ''continuity''),
      (6, ''capacitance''),
      (9, ''current''),
      (11, ''voltage''),
      (13, ''current''),
      (14, ''hFE''),
      (15, ''current'')]"

definition static_units :: "int \<rightharpoonup> string" where
  "static_units = map_of
     [(1, ''V''),
      (2, ''Hz''),
      (3, ''Ohm''),
      (5, ''Ohm''),
      (6, ''F''),
      (9, ''A''),
      (11, ''V''),
      (13, ''uA''),
      (14, ''''),
      (15, ''mA'')]"

definition degree_C :: string where
  "degree_C = [CHR 0xB0, CHR ''C'']"

definition degree_F :: string where
  "degree_F = [CHR 0xB0, CHR ''F'']"

text \<open>\<^verbatim>\<open>flags[0]\<close> raises IndexError on an empty list.\<close>

definition getUnit :: "int \<Rightarrow> int list \<Rightarrow> error + string" where
  "getUnit measurement flags =
     (case static_units measurement of
        Some u \<Rightarrow> Inr u
      | None \<Rightarrow>
          if measurement = 4 then
            (case flags of
               [] \<Rightarrow> Inl IndexError
             | f0 # _ \<Rightarrow> Inr (if f0 AND 8 \<noteq> 0 then degree_C else degree_F))
          else Inr ''???'')"

definition getExponentOffsetForUnit :: "string \<Rightarrow> int" where
  "getExponentOffsetForUnit u =
     (case map_of
        [(''V'', -3),
         (''Ohm'', -1),
         (''A'', -2),
         (''mA'', -2),
         (''uA'', -1),
         (''F'', -3-9)] u of
        Some off \<Rightarrow> off
      | None \<Rightarrow> 0)"

subsection \<open>The builtin int() on an ASCII string\<close>

text \<open>
  \<^verbatim>\<open>int(s)\<close> in base 10 skips white space on both sides, takes one optional sign and
  then wants decimal digits, where a single underscore may stand between two digits
  (Python 3.6 and later); anything else raises ValueError. The line was decoded as
  ASCII, so white space is the ASCII white space: tab, line feed, vertical tab, form
  feed, carriage return and space.
\<close>

definition is_space :: "char \<Rightarrow> bool" where
  "is_space c = (let n = ord c in (9 \<le> n \<and> n \<le> 13) \<or> n = 32)"

definition is_digit :: "char \<Rightarrow> bool" where
  "is_digit c = (let n = ord c in 48 \<le> n \<and> n \<le> 57)"

definition digit_val :: "char \<Rightarrow> int" where
  "digit_val c = ord c - 48"

fun digits_from :: "int \<Rightarrow> string \<Rightarrow> int option" where
  "digits_from n [] = Some n"
| "digits_from n [c] = (if is_digit c then Some (10 * n + digit_val c) else None)"
| "digits_from n (c # d # cs) =
     (if is_digit c then digits_from (10 * n + digit_val c) (d # cs)
      else if c = CHR ''_'' \<and> is_digit d then digits_from (10 * n + digit_val d) cs
      else None)"

definition parse_digits :: "string \<Rightarrow> int option" where
  "parse_digits s =
     (case s of
        [] \<Rightarrow> None
      | c # cs \<Rightarrow> if is_digit c then digits_from (digit_val c) cs else None)"

definition py_int :: "string \<Rightarrow> error + int" where
  "py_int s =
     (let t = dropWhile is_space s;
          neg = (case t of [] \<Rightarrow> False | c # _ \<Rightarrow> c = CHR ''-'');
          u = (case t of [] \<Rightarrow> [] | c # cs \<Rightarrow> if c = CHR ''-'' \<or> c = CHR ''+'' then cs else t);
          v = rev (dropWhile is_space (rev u))
      in case parse_digits v of
           None \<Rightarrow> Inl (ValueError s)
         | Some n \<Rightarrow> Inr (if neg then - n else n))"

subsection \<open>Floating-point numbers\<close>

text \<open>
  A Python float is an IEEE-754 binary64 number. \<open>Double m e\<close> stands for the number
  \<open>m * 2 ^ e\<close>, and \<open>valof\<close> gives that number. Every operation below computes the exact
  result as a fraction of integers and rounds it once to a mantissa of 53 bits, to the
  nearest double and to the even mantissa when two doubles are equally near. The exponent
  range of binary64 is not modelled (no overflow, no subnormal number): the values that
  \<^verbatim>\<open>read\<close> returns are 0 or lie between 1e-13 and 1e20 in magnitude, which is proved below
  as \<open>read_value_range\<close>.
\<close>

datatype double = Double int int

fun valof :: "double \<Rightarrow> real" where
  "valof (Double m e) = real_of_int m * 2 powi e"

text \<open>The integer nearest to \<open>n / d\<close> for \<open>0 < d\<close>, the even one of two equally near.\<close>

definition round_even :: "int \<Rightarrow> int \<Rightarrow> int" where
  "round_even n d =
     (let f = n div d; r = n mod d
      in if 2 * r < d then f else if d < 2 * r then f + 1
         else if even f then f else f + 1)"

text \<open>The \<open>b\<close> with \<open>2 ^ b \<le> p / q < 2 ^ (b + 1)\<close> for positive \<open>p\<close> and \<open>q\<close>, from their bit
  lengths.\<close>

definition binade :: "int \<Rightarrow> int \<Rightarrow> int" where
  "binade p q =
     (let d = bitlen p - bitlen q
      in if q * 2 ^ nat d \<le> p * 2 ^ nat (- d) then d else d - 1)"

text \<open>The double nearest to \<open>p / q\<close> for \<open>0 < q\<close>.\<close>

definition round_ratio :: "int \<Rightarrow> int \<Rightarrow> double" where
  "round_ratio p q =
     (if p = 0 then Double 0 0
      else let e = binade \<bar>p\<bar> q - 52;
               m = round_even (\<bar>p\<bar> * 2 ^ nat (- e)) (q * 2 ^ nat e)
           in Double (sgn p * m) e)"

text \<open>\<^verbatim>\<open>float(n)\<close>, which is also how a float multiplication converts an integer
  operand.\<close>

definition float_of_int :: "int \<Rightarrow> double" where
  "float_of_int n = round_ratio n 1"

text \<open>The product of two floats.\<close>

fun fmul :: "double \<Rightarrow> double \<Rightarrow> double" where
  "fmul (Double m1 e1) (Double m2 e2) =
     round_ratio (m1 * m2 * 2 ^ nat (e1 + e2)) (2 ^ nat (- (e1 + e2)))"

text \<open>
  \<^verbatim>\<open>10**exponent\<close> as an operand of a float multiplication. For \<open>0 \<le> exponent\<close> Python
  computes the integer power, which the multiplication converts to a float. For a
  negative exponent Python answers with the float \<^verbatim>\<open>pow(10.0, exponent)\<close> of the C library;
  that function is taken to return the double nearest to the exact power, as the common C
  libraries do for the exponents -1 to -12 that \<^verbatim>\<open>read\<close> can reach.
\<close>

definition py_pow10 :: "int \<Rightarrow> double" where
  "py_pow10 e = (if 0 \<le> e then float_of_int (10 ^ nat e) else round_ratio 1 (10 ^ nat (- e)))"

subsection \<open>UT803.read (lines 72-118)\<close>

text \<open>\<^verbatim>\<open>bytes.decode("ascii")\<close> raises on a byte above 127.\<close>

definition decode_ascii :: "string \<Rightarrow> error + string" where
  "decode_ascii bs =
     (if list_all (\<lambda>b. ord b < 128) bs then Inr bs else Inl UnicodeDecodeError)"

text \<open>The slice \<^verbatim>\<open>s[i:j]\<close> for \<open>0 \<le> i \<le> j\<close>.\<close>

definition slice :: "nat \<Rightarrow> nat \<Rightarrow> 'a list \<Rightarrow> 'a list" where
  "slice i j xs = take (j - i) (drop i xs)"

type_synonym reading = "real \<times> string \<times> string \<times> (string \<times> bool) list"

text \<open>
  The argument is what \<^verbatim>\<open>self.conn.readline()\<close> returned on an open connection. The
  source reads position 5 first, then the table, the three flag characters, position 0
  and at last positions 1 to 4; the first of them that raises decides the exception.
  The value is computed in doubles, and the reading holds the real number it denotes.
\<close>

definition read :: "string \<Rightarrow> error + reading option" where
  "read raw =
     (case decode_ascii raw of
        Inl e \<Rightarrow> Inl e
      | Inr line \<Rightarrow>
     if line = [] \<or> length line \<noteq> 11 then Inr None
     else
     (case chrToInt (line ! 5) of
        Inl e \<Rightarrow> Inl e
      | Inr measurement \<Rightarrow>
     (case measurement_type_table measurement of
        None \<Rightarrow> Inl (KeyError measurement)
      | Some meas_type \<Rightarrow>
     (case chrToInt_each (slice 6 9 line) of
        Inl e \<Rightarrow> Inl e
      | Inr flags \<Rightarrow>
     (let overload = (flags ! 0) AND 1;
          sign = (flags ! 0) AND 4;
          not_farenheit = (flags ! 0) AND 8;
          minimum = (flags ! 1) AND 2;
          maximum = (flags ! 1) AND 4;
          hold = (flags ! 1) AND 8;
          autorange = (flags ! 2) AND 2;
          ac = (flags ! 2) AND 4;
          dc = (flags ! 2) AND 8
      in
     (case getUnit measurement flags of
        Inl e \<Rightarrow> Inl e
      | Inr unit \<Rightarrow>
     (case chrToInt (line ! 0) of
        Inl e \<Rightarrow> Inl e
      | Inr exponent0 \<Rightarrow>
     (let exponent1 = (if unit = ''V'' \<and> exponent0 AND 4 \<noteq> 0 then exponent0 - 2 else exponent0);
          exponent = exponent1 + getExponentOffsetForUnit unit
      in
     (case py_int (slice 1 5 line) of
        Inl e \<Rightarrow> Inl e
      | Inr base_value \<Rightarrow>
     (let value0 = fmul (float_of_int base_value) (py_pow10 exponent);
          value = (if sign \<noteq> 0 then fmul value0 (float_of_int (- 1)) else value0);
          flags_dict =
            [(''overload'', overload > 0),
             (''sign'', sign > 0),
             (''not_farenheit'', not_farenheit > 0),
             (''min'', minimum > 0),
             (''max'', maximum > 0),
             (''hold'', hold > 0),
             (''autorange'', autorange > 0),
             (''ac'', ac > 0),
             (''dc'', dc > 0)]
      in Inr (Some (valof value, unit, meas_type, flags_dict))))))))))))"

subsection \<open>prettyValueFormat (lines 163-178)\<close>

definition prettyValueFormat :: "real \<Rightarrow> string \<Rightarrow> real \<times> string" where
  "prettyValueFormat value unit =
     (if value = 0 then (value, unit)
      else if value < 1 / 10 ^ 9 then (value * 10 ^ 12, ''p'' @ unit)
      else if value < 1 / 10 ^ 6 then (value * 10 ^ 9, ''n'' @ unit)
      else if value < 1 / 10 ^ 3 then (value * 10 ^ 6, ''u'' @ unit)
      else if value < 1 then (value * 10 ^ 3, ''m'' @ unit)
      else if value < 10 ^ 3 then (value, unit)
      else if value < 10 ^ 6 then (value * (1 / 10 ^ 3), ''k'' @ unit)
      else (value * (1 / 10 ^ 6), ''M'' @ unit))"

subsection \<open>Example frames\<close>

text \<open>Carriage return and line feed end every record of the meter.\<close>

definition crlf :: string where
  "crlf = [CHR 0x0D, CHR 0x0A]"

text \<open>The dictionary that \<^verbatim>\<open>read\<close> returns when no flag bit is set.\<close>

definition no_flags :: "(string \<times> bool) list" where
  "no_flags =
     [(''overload'', False), (''sign'', False), (''not_farenheit'', False),
      (''min'', False), (''max'', False), (''hold'', False),
      (''autorange'', False), (''ac'', False), (''dc'', False)]"

text \<open>The same dictionary with only the bit 3 of the first flag nibble set, and with only
  its bit 2 set.\<close>

definition temp_flags :: "(string \<times> bool) list" where
  "temp_flags =
     [(''overload'', False), (''sign'', False), (''not_farenheit'', True),
      (''min'', False), (''max'', False), (''hold'', False),
      (''autorange'', False), (''ac'', False), (''dc'', False)]"

definition sign_flags :: "(string \<times> bool) list" where
  "sign_flags =
     [(''overload'', False), (''sign'', True), (''not_farenheit'', False),
      (''min'', False), (''max'', False), (''hold'', False),
      (''autorange'', False), (''ac'', False), (''dc'', False)]"

section \<open>Auxiliary facts\<close>

lemmas eval_defs =
  read_def decode_ascii_def ord_def chrToInt_def slice_def measurement_type_table_def
  static_units_def getUnit_def getExponentOffsetForUnit_def py_int_def is_space_def
  is_digit_def digit_val_def parse_digits_def crlf_def no_flags_def degree_C_def degree_F_def

text \<open>Unfolding these evaluates the float operations on numerals.\<close>

lemmas float_defs =
  float_of_int_def py_pow10_def round_ratio_def binade_def round_even_def compute_bitlen Let_def

subsection \<open>Rounding to the nearest double\<close>

lemma round_even_exact: "0 < d \<Longrightarrow> round_even (k * d) d = k"
  by (simp add: round_even_def)

lemma bitlen_ge1: "0 < p \<Longrightarrow> 1 \<le> bitlen p"
  using bitlen_eq_zero_iff [of p] bitlen_nonneg [of p] by linarith

lemma bitlen_real_bounds:
  assumes "0 < p"
  shows "2 powi (bitlen p - 1) \<le> real_of_int p" and "real_of_int p < 2 powi (bitlen p)"
proof -
  from bitlen_bounds [OF assms]
  have a: "2 ^ nat (bitlen p - 1) \<le> p" and b: "p < 2 ^ nat (bitlen p)" by auto
  from bitlen_ge1 [OF assms] have g: "0 \<le> bitlen p - 1" "0 \<le> bitlen p" by auto
  from a have "(2::real) ^ nat (bitlen p - 1) \<le> real_of_int p" by simp
  with g(1) show "2 powi (bitlen p - 1) \<le> real_of_int p" by (simp add: power_int_def)
  from b have "real_of_int p < 2 ^ nat (bitlen p)" by simp
  with g(2) show "real_of_int p < 2 powi (bitlen p)" by (simp add: power_int_def)
qed

lemma pow2_cond:
  assumes "0 < q"
  shows "(q * 2 ^ nat d \<le> p * 2 ^ nat (- d)) = (2 powi d \<le> real_of_int p / real_of_int q)"
proof (cases "0 \<le> d")
  case True
  then have "(2 powi d \<le> real_of_int p / real_of_int q) = (2 ^ nat d * real_of_int q \<le> real_of_int p)"
    using assms by (simp add: power_int_def pos_le_divide_eq)
  also have "\<dots> = (real_of_int (q * 2 ^ nat d) \<le> real_of_int p)" by (simp add: mult.commute)
  also have "\<dots> = (q * 2 ^ nat d \<le> p)" by (rule of_int_le_iff)
  finally show ?thesis using True by simp
next
  case False
  then have n: "nat d = 0" "0 \<le> - d" by auto
  have "(2 powi d \<le> real_of_int p / real_of_int q) = (real_of_int q \<le> real_of_int p * 2 ^ nat (- d))"
    using assms False by (simp add: power_int_def field_simps)
  also have "\<dots> = (real_of_int q \<le> real_of_int (p * 2 ^ nat (- d)))" by simp
  also have "\<dots> = (q \<le> p * 2 ^ nat (- d))" by (rule of_int_le_iff)
  finally show ?thesis using n by simp
qed

lemma binade_bounds:
  assumes "0 < p" and "0 < q"
  shows "2 powi (binade p q) \<le> real_of_int p / real_of_int q"
    and "real_of_int p / real_of_int q < 2 powi (binade p q + 1)"
proof -
  let ?x = "real_of_int p / real_of_int q"
  define d where "d = bitlen p - bitlen q"
  have qpos: "0 < real_of_int q" using assms by simp
  have ppos: "0 < real_of_int p" using assms by simp
  note bp = bitlen_real_bounds [OF assms(1)]
  note bq = bitlen_real_bounds [OF assms(2)]
  have up: "?x < 2 powi (d + 1)"
  proof -
    have "?x < 2 powi (bitlen p) / real_of_int q"
      using bp(2) qpos by (simp add: divide_strict_right_mono)
    also have "\<dots> \<le> 2 powi (bitlen p) / 2 powi (bitlen q - 1)"
      using bq(1) qpos by (intro divide_left_mono) (simp_all add: zero_less_mult_iff)
    also have "\<dots> = 2 powi (d + 1)"
      using power_int_diff [of "2::real" "bitlen p" "bitlen q - 1"]
      by (simp add: d_def algebra_simps)
    finally show ?thesis .
  qed
  have lo: "2 powi (d - 1) \<le> ?x"
  proof -
    have "(2::real) powi (d - 1) = 2 powi (bitlen p - 1) / 2 powi (bitlen q)"
      using power_int_diff [of "2::real" "bitlen p - 1" "bitlen q"]
      by (simp add: d_def algebra_simps)
    also have "\<dots> \<le> real_of_int p / 2 powi (bitlen q)"
      using bp(1) by (simp add: divide_right_mono)
    also have "\<dots> \<le> ?x"
      using bq(2) ppos qpos by (intro divide_left_mono) (simp_all add: zero_less_mult_iff)
    finally show ?thesis .
  qed
  have b: "binade p q = (if 2 powi d \<le> ?x then d else d - 1)"
    unfolding binade_def Let_def d_def [symmetric] pow2_cond [OF assms(2)] by (rule refl)
  show "2 powi (binade p q) \<le> ?x" using lo by (simp add: b)
  show "?x < 2 powi (binade p q + 1)" using up by (simp add: b)
qed


lemma scaled_ratio:
  assumes "0 < q"
  shows "real_of_int (a * 2 ^ nat (- e)) / real_of_int (q * 2 ^ nat e)
         = real_of_int a / real_of_int q / 2 powi e"
proof (cases "0 \<le> e")
  case True
  then show ?thesis by (simp add: power_int_def)
next
  case False
  then show ?thesis by (simp add: power_int_def field_simps)
qed

lemma pow2_less_cancel:
  assumes "(2::real) powi b < 2 powi c"
  shows "b < c"
proof (rule ccontr)
  assume "\<not> b < c"
  then have "c \<le> b" by simp
  then have "(2::real) powi c \<le> 2 powi b" by (intro power_int_increasing) simp_all
  with assms show False by simp
qed

lemma round_even_near:
  assumes "0 < d"
  shows "\<bar>real_of_int (round_even n d) - real_of_int n / real_of_int d\<bar> \<le> 1 / 2"
proof -
  let ?f = "n div d" and ?r = "n mod d"
  have r: "0 \<le> ?r" "?r < d" using assms by simp_all
  have "n = ?f * d + ?r" by simp
  then have "real_of_int n = real_of_int ?f * real_of_int d + real_of_int ?r"
    by (metis of_int_add of_int_mult)
  then have x: "real_of_int n / real_of_int d = real_of_int ?f + real_of_int ?r / real_of_int d"
    using assms by (simp add: field_simps)
  have dpos: "0 < real_of_int d" using assms by simp
  consider "2 * ?r < d" | "d < 2 * ?r" | "2 * ?r = d" by linarith
  then show ?thesis
  proof cases
    case 1
    then have "2 * real_of_int ?r < real_of_int d" by linarith
    then have "real_of_int ?r / real_of_int d < 1 / 2" using dpos by (simp add: field_simps)
    moreover have "0 \<le> real_of_int ?r / real_of_int d" using r dpos by simp
    moreover have "round_even n d = ?f" using 1 by (simp add: round_even_def Let_def)
    ultimately show ?thesis using x by simp
  next
    case 2
    then have "real_of_int d < 2 * real_of_int ?r" by linarith
    then have "1 / 2 < real_of_int ?r / real_of_int d" using dpos by (simp add: field_simps)
    moreover have "real_of_int ?r / real_of_int d < 1" using r dpos by simp
    moreover have "round_even n d = ?f + 1" using 2 by (simp add: round_even_def Let_def)
    ultimately show ?thesis using x by simp
  next
    case 3
    then have "2 * real_of_int ?r = real_of_int d" by linarith
    then have h: "real_of_int ?r / real_of_int d = 1 / 2" using dpos by (simp add: field_simps)
    have "round_even n d = ?f \<or> round_even n d = ?f + 1"
      using 3 by (simp add: round_even_def Let_def)
    then show ?thesis using x h by auto
  qed
qed

lemma round_ratio_exact_strict:
  assumes q: "0 < q"
    and x: "real_of_int p / real_of_int q = real_of_int k * 2 powi j"
    and k: "\<bar>k\<bar> < 2 ^ 53"
  shows "valof (round_ratio p q) = real_of_int p / real_of_int q"
proof (cases "p = 0")
  case True
  then show ?thesis by (simp add: round_ratio_def)
next
  case False
  define e where "e = binade \<bar>p\<bar> q - 52"
  let ?a = "real_of_int \<bar>p\<bar> / real_of_int q"
  from False have ap: "0 < \<bar>p\<bar>" by simp
  have ax: "?a = real_of_int \<bar>k\<bar> * 2 powi j"
  proof -
    have "?a = \<bar>real_of_int p / real_of_int q\<bar>" using q by simp
    also have "\<dots> = \<bar>real_of_int k * 2 powi j\<bar>" by (simp only: x)
    also have "\<dots> = real_of_int \<bar>k\<bar> * 2 powi j" by (simp add: abs_mult)
    finally show ?thesis .
  qed
  have "2 powi (binade \<bar>p\<bar> q) \<le> ?a" by (rule binade_bounds(1) [OF ap q])
  also have "?a < 2 ^ 53 * 2 powi j"
    unfolding ax using k by (intro mult_strict_right_mono) simp_all
  also have "(2::real) ^ 53 * 2 powi j = 2 powi (53 + j)"
    by (simp add: power_int_add)
  finally have "binade \<bar>p\<bar> q < 53 + j" by (rule pow2_less_cancel)
  then have ej: "e \<le> j" by (simp add: e_def)
  define M where "M = \<bar>k\<bar> * 2 ^ nat (j - e)"
  have "?a / 2 powi e = real_of_int \<bar>k\<bar> * 2 powi (j - e)"
    unfolding ax by (simp add: power_int_diff)
  also have "\<dots> = real_of_int M" using ej by (simp add: M_def power_int_def)
  finally have sc: "?a / 2 powi e = real_of_int M" .
  let ?N = "\<bar>p\<bar> * 2 ^ nat (- e)" and ?D = "q * 2 ^ nat e"
  have D: "0 < ?D" using q by simp
  have Dr: "real_of_int ?D \<noteq> 0" using q by simp
  have "real_of_int ?N / real_of_int ?D = real_of_int M"
    using scaled_ratio [OF q, of "\<bar>p\<bar>" e] sc by simp
  with Dr have "real_of_int ?N = real_of_int M * real_of_int ?D"
    by (metis nonzero_divide_eq_eq)
  then have "real_of_int ?N = real_of_int (M * ?D)" by (simp only: of_int_mult)
  then have "?N = M * ?D" by (simp only: of_int_eq_iff)
  then have "round_even ?N ?D = M" using round_even_exact [OF D, of M] by simp
  then have rr: "round_ratio p q = Double (sgn p * M) e"
    using False by (simp add: round_ratio_def Let_def e_def)
  have "valof (round_ratio p q) = real_of_int (sgn p) * (real_of_int M * 2 powi e)"
    by (simp add: rr)
  also have "real_of_int M * 2 powi e = ?a" by (simp add: sc [symmetric])
  also have "real_of_int (sgn p) * ?a = real_of_int p / real_of_int q"
    by (cases "0 < p") (use False in \<open>simp_all add: sgn_if\<close>)
  finally show ?thesis .
qed


lemma round_ratio_exact:
  assumes q: "0 < q"
    and x: "real_of_int p / real_of_int q = real_of_int k * 2 powi j"
    and k: "\<bar>k\<bar> \<le> 2 ^ 53"
  shows "valof (round_ratio p q) = real_of_int p / real_of_int q"
proof (cases "\<bar>k\<bar> < 2 ^ 53")
  case True
  with q x show ?thesis by (rule round_ratio_exact_strict)
next
  case False
  with k have "\<bar>k\<bar> = 2 ^ 53" by simp
  then have "k = 9007199254740992 \<or> k = - 9007199254740992" by (cases "k < 0") simp_all
  then have "\<exists>k'. k = k' * 2 \<and> \<bar>k'\<bar> < 2 ^ 53"
    by (elim disjE) (rule exI [of _ 4503599627370496], simp,
        rule exI [of _ "- 4503599627370496"], simp)
  then obtain k' where k': "k = k' * 2" "\<bar>k'\<bar> < 2 ^ 53" by blast
  have "real_of_int k * 2 powi j = real_of_int k' * 2 powi (j + 1)"
    by (simp add: k'(1) power_int_add)
  with x have "real_of_int p / real_of_int q = real_of_int k' * 2 powi (j + 1)" by simp
  with q show ?thesis using k'(2) by (rule round_ratio_exact_strict)
qed

lemma round_ratio_struct:
  assumes q: "0 < q" and p: "p \<noteq> 0"
  shows "\<exists>R e y. round_ratio p q = Double (sgn p * R) e
    \<and> y = real_of_int \<bar>p\<bar> / real_of_int q / 2 powi e
    \<and> \<bar>real_of_int R - y\<bar> \<le> 1 / 2 \<and> 2 ^ 52 \<le> y \<and> y < 2 ^ 53"
proof -
  define e where "e = binade \<bar>p\<bar> q - 52"
  define a where "a = real_of_int \<bar>p\<bar> / real_of_int q"
  define y where "y = a / 2 powi e"
  let ?N = "\<bar>p\<bar> * 2 ^ nat (- e)" and ?D = "q * 2 ^ nat e"
  from p have ap: "0 < \<bar>p\<bar>" by simp
  have D: "0 < ?D" using q by simp
  have sc: "real_of_int ?N / real_of_int ?D = y"
    unfolding y_def a_def by (rule scaled_ratio [OF q])
  have rr: "round_ratio p q = Double (sgn p * round_even ?N ?D) e"
    using p by (simp add: round_ratio_def Let_def e_def)
  have near: "\<bar>real_of_int (round_even ?N ?D) - y\<bar> \<le> 1 / 2"
    using round_even_near [OF D, of ?N] by (simp only: sc)
  have pe: "(0::real) < 2 powi e" by simp
  have e52: "(2::real) powi (e + 52) = 2 ^ 52 * 2 powi e"
    and e53: "(2::real) powi (e + 53) = 2 ^ 53 * 2 powi e"
    by (simp_all add: power_int_add)
  have "2 powi (e + 52) \<le> a"
    using binade_bounds(1) [OF ap q] by (simp add: e_def a_def)
  then have "2 ^ 52 * 2 powi e \<le> a" by (simp only: e52)
  then have lo: "2 ^ 52 \<le> y"
    unfolding y_def by (simp only: pos_le_divide_eq [OF pe])
  have "a < 2 powi (e + 53)"
    using binade_bounds(2) [OF ap q] by (simp add: e_def a_def add.commute)
  then have "a < 2 ^ 53 * 2 powi e" by (simp only: e53)
  then have hi: "y < 2 ^ 53"
    unfolding y_def by (simp only: pos_divide_less_eq [OF pe])
  from rr near lo hi show ?thesis unfolding y_def a_def by blast
qed

lemma round_ratio_canonical:
  assumes q: "0 < q"
  shows "\<exists>m e. round_ratio p q = Double m e \<and> \<bar>m\<bar> \<le> 2 ^ 53"
proof (cases "p = 0")
  case True
  then show ?thesis by (simp add: round_ratio_def)
next
  case False
  from round_ratio_struct [OF q False] obtain R e y where
    rr: "round_ratio p q = Double (sgn p * R) e"
    and near: "\<bar>real_of_int R - y\<bar> \<le> 1 / 2"
    and lo: "2 ^ 52 \<le> y"
    and hi: "y < 2 ^ 53"
    by blast
  from near hi have "real_of_int R < 2 ^ 53 + 1" by linarith
  then have "real_of_int R < real_of_int (2 ^ 53 + 1)" by simp
  then have u: "R < 2 ^ 53 + 1" by (simp only: of_int_less_iff)
  have "(1::real) \<le> 2 ^ 52" by simp
  with near lo have "0 < real_of_int R" by linarith
  then have l: "0 < R" by simp
  from u l have "\<bar>sgn p * R\<bar> \<le> 2 ^ 53" using False by (simp add: abs_mult)
  with rr show ?thesis by blast
qed

lemma round_ratio_error:
  assumes q: "0 < q"
  shows "\<bar>valof (round_ratio p q) - real_of_int p / real_of_int q\<bar>
         \<le> \<bar>real_of_int p / real_of_int q\<bar> / 2 ^ 53"
proof (cases "p = 0")
  case True
  then show ?thesis by (simp add: round_ratio_def)
next
  case False
  define a where "a = real_of_int \<bar>p\<bar> / real_of_int q"
  from round_ratio_struct [OF q False] obtain R e y where
    rr: "round_ratio p q = Double (sgn p * R) e"
    and y: "y = a / 2 powi e"
    and near: "\<bar>real_of_int R - y\<bar> \<le> 1 / 2"
    and lo: "2 ^ 52 \<le> y"
    unfolding a_def by blast
  have pe: "(0::real) < 2 powi e" by simp
  have ya: "y * 2 powi e = a" by (simp add: y)
  have sx: "real_of_int p / real_of_int q = real_of_int (sgn p) * a"
    unfolding a_def by (cases "0 < p") (use False in \<open>simp_all add: sgn_if\<close>)
  have s1: "\<bar>real_of_int (sgn p)\<bar> = 1" using False by (simp add: sgn_if)
  have "valof (round_ratio p q) - real_of_int p / real_of_int q
        = real_of_int (sgn p) * (real_of_int R * 2 powi e - y * 2 powi e)"
    unfolding sx ya by (simp add: rr algebra_simps)
  also have "\<dots> = real_of_int (sgn p) * ((real_of_int R - y) * 2 powi e)"
    by (simp only: left_diff_distrib)
  finally have "\<bar>valof (round_ratio p q) - real_of_int p / real_of_int q\<bar>
        = \<bar>real_of_int R - y\<bar> * 2 powi e"
    using s1 by (simp add: abs_mult)
  also have "\<dots> \<le> 1 / 2 * 2 powi e"
    using near pe by (intro mult_right_mono) simp_all
  also have "\<dots> \<le> (y / 2 ^ 53) * 2 powi e"
  proof (intro mult_right_mono)
    have "(2::real) ^ 52 / 2 ^ 53 \<le> y / 2 ^ 53" using lo by (intro divide_right_mono) simp_all
    then show "1 / 2 \<le> y / 2 ^ 53" by simp
    show "(0::real) \<le> 2 powi e" by simp
  qed
  also have "\<dots> = a / 2 ^ 53" using ya by (simp add: field_simps)
  also have "a = \<bar>real_of_int p / real_of_int q\<bar>" unfolding a_def using q by simp
  finally show ?thesis .
qed


lemma fmul_ratio:
  "\<exists>P Q. 0 < Q \<and> fmul a b = round_ratio P Q
     \<and> real_of_int P / real_of_int Q = valof a * valof b"
proof -
  obtain m1 e1 where a: "a = Double m1 e1" by (cases a)
  obtain m2 e2 where b: "b = Double m2 e2" by (cases b)
  let ?e = "e1 + e2"
  let ?P = "m1 * m2 * 2 ^ nat ?e" and ?Q = "(2::int) ^ nat (- ?e)"
  have "real_of_int ?P / real_of_int ?Q = real_of_int (m1 * m2) * 2 powi ?e"
    by (cases "0 \<le> ?e") (simp_all add: power_int_def field_simps)
  also have "\<dots> = valof a * valof b" by (simp add: a b power_int_add)
  finally have "real_of_int ?P / real_of_int ?Q = valof a * valof b" .
  moreover have "0 < ?Q" by simp
  moreover have "fmul a b = round_ratio ?P ?Q" by (simp add: a b)
  ultimately show ?thesis by blast
qed

lemma fmul_exact:
  assumes "valof a * valof b = real_of_int k * 2 powi j" and "\<bar>k\<bar> \<le> 2 ^ 53"
  shows "valof (fmul a b) = valof a * valof b"
proof -
  from fmul_ratio [of a b] obtain P Q where Q: "0 < Q" and f: "fmul a b = round_ratio P Q"
    and r: "real_of_int P / real_of_int Q = valof a * valof b" by blast
  from r assms(1) have "real_of_int P / real_of_int Q = real_of_int k * 2 powi j" by simp
  from round_ratio_exact [OF Q this assms(2)] show ?thesis by (simp only: f r)
qed

lemma fmul_error:
  "\<bar>valof (fmul a b) - valof a * valof b\<bar> \<le> \<bar>valof a * valof b\<bar> / 2 ^ 53"
proof -
  from fmul_ratio [of a b] obtain P Q where Q: "0 < Q" and f: "fmul a b = round_ratio P Q"
    and r: "real_of_int P / real_of_int Q = valof a * valof b" by blast
  from round_ratio_error [OF Q, of P] show ?thesis by (simp only: f r)
qed

lemma fmul_canonical: "\<exists>m e. fmul a b = Double m e \<and> \<bar>m\<bar> \<le> 2 ^ 53"
proof -
  from fmul_ratio [of a b] obtain P Q where Q: "0 < Q" and f: "fmul a b = round_ratio P Q"
    by blast
  from round_ratio_canonical [OF Q, of P] show ?thesis by (simp only: f)
qed

lemma float_of_int_exact:
  assumes "\<bar>n\<bar> \<le> 2 ^ 53"
  shows "valof (float_of_int n) = real_of_int n"
proof -
  have "real_of_int n / real_of_int 1 = real_of_int n * 2 powi 0" by simp
  from round_ratio_exact [OF _ this assms] show ?thesis by (simp add: float_of_int_def)
qed

lemma fmul_minus_one:
  assumes "\<bar>m\<bar> \<le> 2 ^ 53"
  shows "valof (fmul (Double m e) (float_of_int (- 1))) = - valof (Double m e)"
proof -
  have one: "valof (float_of_int (- 1)) = - 1"
    using float_of_int_exact [of "- 1"] by simp
  have "valof (Double m e) * valof (float_of_int (- 1)) = real_of_int (- m) * 2 powi e"
    by (simp add: one)
  moreover have "\<bar>- m\<bar> \<le> 2 ^ 53" using assms by simp
  ultimately have "valof (fmul (Double m e) (float_of_int (- 1)))
      = valof (Double m e) * valof (float_of_int (- 1))" by (rule fmul_exact)
  then show ?thesis by (simp add: one)
qed

lemma fmul_fmul_minus_one:
  "valof (fmul (fmul a b) (float_of_int (- 1))) = - valof (fmul a b)"
proof -
  from fmul_canonical [of a b] obtain m e where f: "fmul a b = Double m e"
    and m: "\<bar>m\<bar> \<le> 2 ^ 53" by blast
  from fmul_minus_one [OF m, of e] show ?thesis by (simp only: f)
qed

lemma py_pow10_exact:
  assumes "0 \<le> E" and "E \<le> 15"
  shows "valof (py_pow10 E) = 10 ^ nat E"
proof -
  from assms have "nat E \<le> 15" by simp
  then have "(10::int) ^ nat E \<le> 10 ^ 15" by (intro power_increasing) simp_all
  also have "\<dots> \<le> 2 ^ 53" by simp
  finally have "\<bar>(10::int) ^ nat E\<bar> \<le> 2 ^ 53" by simp
  from float_of_int_exact [OF this] assms(1) show ?thesis by (simp add: py_pow10_def)
qed

lemma value_exact:
  assumes b: "\<bar>b\<bar> \<le> 9999" and E: "0 \<le> E" "E \<le> 15"
  shows "valof (fmul (float_of_int b) (py_pow10 E)) = real_of_int b * 10 ^ nat E"
proof -
  from b have "\<bar>b\<bar> \<le> 2 ^ 53" by simp
  then have vb: "valof (float_of_int b) = real_of_int b" by (rule float_of_int_exact)
  note vp = py_pow10_exact [OF E]
  define n where "n = nat E"
  have n: "n \<le> 15" using E by (simp add: n_def)
  have "(5::int) ^ n \<le> 5 ^ 15" using n by (intro power_increasing) simp_all
  then have five: "(5::int) ^ n \<le> 30517578125" by simp
  have "\<bar>b * 5 ^ n\<bar> = \<bar>b\<bar> * 5 ^ n" by (simp add: abs_mult)
  also have "\<dots> \<le> 9999 * 30517578125"
    using b five by (intro mult_mono) simp_all
  also have "\<dots> \<le> 2 ^ 53" by simp
  finally have k: "\<bar>b * 5 ^ n\<bar> \<le> 2 ^ 53" .
  have "(10::real) ^ n = 5 ^ n * 2 ^ n" by (simp add: power_mult_distrib [symmetric])
  then have "valof (float_of_int b) * valof (py_pow10 E)
      = real_of_int (b * 5 ^ n) * 2 powi (int n)"
    by (simp add: vb vp n_def [symmetric])
  from fmul_exact [OF this k] show ?thesis by (simp add: vb vp n_def)
qed

lemma py_pow10_error:
  assumes "E < 0"
  shows "\<bar>valof (py_pow10 E) - 10 powi E\<bar> \<le> 10 powi E / 2 ^ 53"
proof -
  have q: "(0::int) < 10 ^ nat (- E)" by simp
  have r: "real_of_int 1 / real_of_int (10 ^ nat (- E)) = 10 powi E"
    using assms by (simp add: power_int_def field_simps)
  have "(0::real) \<le> 10 powi E" by simp
  then have "\<bar>(10::real) powi E\<bar> = 10 powi E" by (rule abs_of_nonneg)
  with round_ratio_error [OF q, of 1] show ?thesis
    using assms by (simp only: r py_pow10_def) simp
qed

lemma value_error:
  assumes b: "\<bar>b\<bar> \<le> 2 ^ 53" and E: "E < 0"
  shows "\<bar>valof (fmul (float_of_int b) (py_pow10 E)) - real_of_int b * 10 powi E\<bar>
         \<le> \<bar>real_of_int b * 10 powi E\<bar> / 2 ^ 51"
proof -
  define B where "B = \<bar>real_of_int b\<bar>"
  define t where "t = (10::real) powi E"
  define P where "P = valof (py_pow10 E)"
  define w where "w = valof (fmul (float_of_int b) (py_pow10 E))"
  define u where "u = B * t / 2 ^ 53"
  have vb: "valof (float_of_int b) = real_of_int b" using b by (rule float_of_int_exact)
  have B0: "0 \<le> B" by (simp add: B_def)
  have t0: "0 \<le> t" by (simp add: t_def)
  have u0: "0 \<le> u" using B0 t0 by (simp add: u_def)
  have pe: "\<bar>P - t\<bar> \<le> t / 2 ^ 53" unfolding P_def t_def by (rule py_pow10_error [OF E])
  have "\<bar>real_of_int b * P - real_of_int b * t\<bar> = B * \<bar>P - t\<bar>"
    by (simp add: B_def abs_mult right_diff_distrib [symmetric])
  also have "\<dots> \<le> B * (t / 2 ^ 53)" using pe B0 by (rule mult_left_mono)
  finally have d1: "\<bar>real_of_int b * P - real_of_int b * t\<bar> \<le> u" by (simp add: u_def)
  have bt: "\<bar>real_of_int b * t\<bar> = B * t" using t0 by (simp add: B_def abs_mult)
  have "\<bar>real_of_int b * P\<bar> \<le> \<bar>real_of_int b * t\<bar> + \<bar>real_of_int b * P - real_of_int b * t\<bar>"
    by linarith
  with d1 bt have bp: "\<bar>real_of_int b * P\<bar> \<le> B * t + u" by linarith
  have "\<bar>w - real_of_int b * P\<bar> \<le> \<bar>real_of_int b * P\<bar> / 2 ^ 53"
    using fmul_error [of "float_of_int b" "py_pow10 E"] by (simp only: w_def P_def vb)
  also have "\<dots> \<le> (B * t + u) / 2 ^ 53" using bp by (intro divide_right_mono) simp_all
  also have "\<dots> = u + u / 2 ^ 53" by (simp add: u_def add_divide_distrib)
  also have "\<dots> \<le> u + u"
  proof -
    have "u / 2 ^ 53 \<le> u / 1" using u0 by (intro divide_left_mono) simp_all
    then show ?thesis by simp
  qed
  finally have d2: "\<bar>w - real_of_int b * P\<bar> \<le> u + u" .
  have "\<bar>w - real_of_int b * t\<bar> \<le> \<bar>w - real_of_int b * P\<bar> + \<bar>real_of_int b * P - real_of_int b * t\<bar>"
    by linarith
  with d1 d2 have "\<bar>w - real_of_int b * t\<bar> \<le> 3 * u" by linarith
  also have "\<dots> \<le> 4 * u" using u0 by simp
  also have "\<dots> = B * t / 2 ^ 51" by (simp add: u_def)
  finally have "\<bar>w - real_of_int b * t\<bar> \<le> \<bar>real_of_int b * t\<bar> / 2 ^ 51"
    by (simp only: bt)
  then show ?thesis unfolding w_def t_def .
qed

subsection \<open>Slices and the inversion of read\<close>

lemma take3_drop:
  "n + 3 \<le> length xs \<Longrightarrow> take 3 (drop n xs) = [xs ! n, xs ! (n + 1), xs ! (n + 2)]"
  by (simp add: numeral_3_eq_3 take_Suc_conv_app_nth add.commute)

lemma slice_flags:
  "length line = 11 \<Longrightarrow> slice 6 9 line = [line ! 6, line ! 7, line ! 8]"
  using take3_drop [of 6 line] by (simp add: slice_def)

lemma chrToInt_each_three:
  "chrToInt_each [a, b, c] = Inr fl \<longleftrightarrow>
     (\<exists>x y z. chrToInt a = Inr x \<and> chrToInt b = Inr y \<and> chrToInt c = Inr z \<and> fl = [x, y, z])"
  by (auto split: sum.splits)

text \<open>What a successful \<open>read\<close> says about the line: every stage went through.\<close>

lemma read_SomeD:
  assumes "read raw = Inr (Some (v, u, t, fd))"
  shows "length raw = 11 \<and> list_all (\<lambda>b. ord b < 128) raw \<and>
    (\<exists>m f0 f1 f2 e0 b.
       chrToInt (raw ! 5) = Inr m \<and> measurement_type_table m = Some t \<and>
       chrToInt (raw ! 6) = Inr f0 \<and> chrToInt (raw ! 7) = Inr f1 \<and> chrToInt (raw ! 8) = Inr f2 \<and>
       getUnit m [f0, f1, f2] = Inr u \<and>
       chrToInt (raw ! 0) = Inr e0 \<and>
       py_int (slice 1 5 raw) = Inr b \<and>
       v = (if f0 AND 4 \<noteq> 0 then - 1 else 1) *
           valof (fmul (float_of_int b)
             (py_pow10 ((if u = ''V'' \<and> e0 AND 4 \<noteq> 0 then e0 - 2 else e0)
                        + getExponentOffsetForUnit u))))"
proof -
  from assms have asc: "list_all (\<lambda>b. ord b < 128) raw"
    unfolding read_def decode_ascii_def by (cases "list_all (\<lambda>b. ord b < 128) raw") simp_all
  with assms have len: "length raw = 11"
    unfolding read_def decode_ascii_def by (cases "length raw = 11") simp_all
  from len have ne: "raw \<noteq> []" by auto
  note pre = asc len ne
  from assms pre obtain m where m: "chrToInt (raw ! 5) = Inr m"
    unfolding read_def decode_ascii_def by (cases "chrToInt (raw ! 5)") auto
  from assms pre m obtain t' where t': "measurement_type_table m = Some t'"
    unfolding read_def decode_ascii_def by (cases "measurement_type_table m") auto
  from assms pre m t' obtain fl where fl: "chrToInt_each (slice 6 9 raw) = Inr fl"
    unfolding read_def decode_ascii_def by (cases "chrToInt_each (slice 6 9 raw)") auto
  from fl len have "chrToInt_each [raw ! 6, raw ! 7, raw ! 8] = Inr fl"
    by (simp only: slice_flags)
  then obtain f0 f1 f2 where f: "chrToInt (raw ! 6) = Inr f0" "chrToInt (raw ! 7) = Inr f1"
      "chrToInt (raw ! 8) = Inr f2" "fl = [f0, f1, f2]"
    unfolding chrToInt_each_three by blast
  from assms pre m t' fl obtain u' where u': "getUnit m fl = Inr u'"
    unfolding read_def decode_ascii_def by (cases "getUnit m fl") (auto simp: Let_def)
  from assms pre m t' fl u' obtain e0 where e0: "chrToInt (raw ! 0) = Inr e0"
    unfolding read_def decode_ascii_def by (cases "chrToInt (raw ! 0)") (auto simp: Let_def)
  from assms pre m t' fl u' e0 obtain b where b: "py_int (slice 1 5 raw) = Inr b"
    unfolding read_def decode_ascii_def by (cases "py_int (slice 1 5 raw)") (auto simp: Let_def)
  from assms pre m t' fl u' e0 b f(4) have
    "t' = t" "u' = u"
    "v = (if f0 AND 4 \<noteq> 0 then - 1 else 1) *
           valof (fmul (float_of_int b)
             (py_pow10 ((if u = ''V'' \<and> e0 AND 4 \<noteq> 0 then e0 - 2 else e0)
                        + getExponentOffsetForUnit u)))"
    unfolding read_def decode_ascii_def
    by (auto simp: Let_def fmul_fmul_minus_one split: if_splits)
  with asc len m t' f u' e0 b show ?thesis by auto
qed

subsection \<open>Kinds and units\<close>

lemma measurement_type_table_eq:
  "measurement_type_table k =
     (if k = 1 then Some ''diode'' else if k = 2 then Some ''frequency''
      else if k = 3 then Some ''resistance'' else if k = 4 then Some ''temperature''
      else if k = 5 then Some ''continuity'' else if k = 6 then Some ''capacitance''
      else if k = 9 then Some ''current'' else if k = 11 then Some ''voltage''
      else if k = 13 then Some ''current'' else if k = 14 then Some ''hFE''
      else if k = 15 then Some ''current'' else None)"
  by (simp add: measurement_type_table_def)

lemma measurement_type_table_None:
  "measurement_type_table k = None \<longleftrightarrow> k \<notin> {1, 2, 3, 4, 5, 6, 9, 11, 13, 14, 15}"
  by (simp add: measurement_type_table_eq)

lemma read_KeyError:
  assumes "list_all (\<lambda>b. ord b < 128) raw" and "length raw = 11"
    and "chrToInt (raw ! 5) = Inr m" and "measurement_type_table m = None"
  shows "read raw = Inl (KeyError m)"
proof -
  from assms(2) have "raw \<noteq> []" by auto
  with assms show ?thesis by (simp add: read_def decode_ascii_def)
qed

lemma getUnit_temperature:
  "getUnit 4 (f0 # fs) = Inr (if f0 AND 8 \<noteq> 0 then degree_C else degree_F)"
  by (simp add: getUnit_def static_units_def)

lemma getUnit_known:
  assumes "measurement_type_table m = Some t" and "getUnit m (f0 # fs) = Inr u"
  shows "u \<noteq> ''???''"
proof -
  from assms(1) have "m \<in> {1, 2, 3, 4, 5, 6, 9, 11, 13, 14, 15}"
    using measurement_type_table_None [of m] by auto
  then consider "m = 4" | "m \<in> {1, 2, 3, 5, 6, 9, 11, 13, 14, 15}" by auto
  then show ?thesis
  proof cases
    case 1
    with assms(2) show ?thesis
      by (auto simp: getUnit_temperature degree_C_def degree_F_def split: if_splits)
  next
    case 2
    with assms(2) show ?thesis
      by (auto simp: getUnit_def static_units_def)
  qed
qed

lemma getUnit_V:
  assumes "measurement_type_table m = Some t" and "getUnit m (f0 # fs) = Inr u"
  shows "u = ''V'' \<longleftrightarrow> m = 1 \<or> m = 11"
proof -
  from assms(1) have "m \<in> {1, 2, 3, 4, 5, 6, 9, 11, 13, 14, 15}"
    using measurement_type_table_None [of m] by auto
  then consider "m = 4" | "m \<in> {1, 2, 3, 5, 6, 9, 11, 13, 14, 15}" by auto
  then show ?thesis
  proof cases
    case 1
    with assms(2) show ?thesis
      by (auto simp: getUnit_temperature degree_C_def degree_F_def split: if_splits)
  next
    case 2
    with assms(2) show ?thesis
      by (auto simp: getUnit_def static_units_def)
  qed
qed

subsection \<open>int() on the four characters\<close>


lemma is_digit_val: "is_digit c \<Longrightarrow> 0 \<le> digit_val c \<and> digit_val c \<le> 9"
  by (simp add: is_digit_def digit_val_def Let_def)



lemma digit_step:
  assumes "r < (10 * n + k + 1) * P" and "k \<le> 9" and "0 \<le> (P::int)"
  shows "r < (n + 1) * (10 * P)"
proof -
  from assms(2) have "10 * n + k + 1 \<le> (n + 1) * 10" by simp
  then have "(10 * n + k + 1) * P \<le> ((n + 1) * 10) * P"
    using assms(3) by (rule mult_right_mono)
  also have "((n + 1) * 10) * P = (n + 1) * (10 * P)" by (simp only: mult.assoc)
  finally show ?thesis using assms(1) by (rule less_le_trans [rotated])
qed

lemma digits_from_bounds:
  "digits_from n s = Some r \<Longrightarrow> 0 \<le> n \<Longrightarrow> 0 \<le> r \<and> r < (n + 1) * 10 ^ length s"
proof (induction n s rule: digits_from.induct)
  case (1 n)
  then show ?case by simp
next
  case (2 n c)
  then have d: "is_digit c" "r = 10 * n + digit_val c" by (auto split: if_splits)
  with 2(2) is_digit_val [of c] show ?case by simp
next
  case (3 n c d cs)
  show ?case
  proof (cases "is_digit c")
    case True
    with 3 is_digit_val [of c]
    have r: "0 \<le> r" "r < (10 * n + digit_val c + 1) * 10 ^ length (d # cs)"
      by auto
    from True is_digit_val [of c] have "digit_val c \<le> 9" by simp
    with r(2) have "r < (n + 1) * (10 * 10 ^ length (d # cs))"
      by (rule digit_step) simp
    with r(1) show ?thesis by simp
  next
    case False
    with 3(3) have u: "c = CHR ''_''" "is_digit d" "digits_from (10 * n + digit_val d) cs = Some r"
      by (auto split: if_splits)
    with 3(2) [OF False] 3(4) is_digit_val [of d]
    have r: "0 \<le> r" "r < (10 * n + digit_val d + 1) * 10 ^ length cs"
      by auto
    from u is_digit_val [of d] have "digit_val d \<le> 9" by simp
    with r(2) have "r < (n + 1) * (10 * 10 ^ length cs)"
      by (rule digit_step) simp
    also have "(n + 1) * (10 * 10 ^ length cs) \<le> (n + 1) * (10 * (10 * 10 ^ length cs))"
      using 3(4) by (intro mult_left_mono) auto
    finally show ?thesis using r(1) by simp
  qed
qed

lemma parse_digits_bounds:
  assumes "parse_digits s = Some r"
  shows "0 \<le> r \<and> r < 10 ^ length s"
proof (cases s)
  case Nil
  with assms show ?thesis by (simp add: parse_digits_def)
next
  case (Cons c cs)
  with assms have d: "is_digit c" "digits_from (digit_val c) cs = Some r"
    by (auto simp: parse_digits_def split: if_splits)
  from digits_from_bounds [OF d(2)] is_digit_val [OF d(1)]
  have r: "0 \<le> r" "r < (10 * 0 + digit_val c + 1) * 10 ^ length cs" by auto
  from is_digit_val [OF d(1)] have "digit_val c \<le> 9" by simp
  with r(2) have "r < (0 + 1) * (10 * 10 ^ length cs)"
    by (rule digit_step) simp
  with r(1) Cons show ?thesis by simp
qed

lemma length_strip_right: "length (rev (dropWhile P (rev u))) \<le> length u"
  using length_dropWhile_le [of P "rev u"] by simp

lemma py_int_bounds:
  assumes "py_int s = Inr n"
  shows "- (10 ^ (length s - 1)) < n \<and> n < 10 ^ length s"
proof -
  define t where "t = dropWhile is_space s"
  define neg where "neg = (case t of [] \<Rightarrow> False | c # _ \<Rightarrow> c = CHR ''-'')"
  define u where "u = (case t of [] \<Rightarrow> [] | c # cs \<Rightarrow> if c = CHR ''-'' \<or> c = CHR ''+'' then cs else t)"
  define v where "v = rev (dropWhile is_space (rev u))"
  have "py_int s = (case parse_digits v of
           None \<Rightarrow> Inl (ValueError s)
         | Some k \<Rightarrow> Inr (if neg then - k else k))"
    unfolding py_int_def Let_def v_def u_def neg_def t_def by (rule refl)
  with assms obtain r where r: "parse_digits v = Some r" "n = (if neg then - r else r)"
    by (auto split: option.splits)
  have lt: "length t \<le> length s" unfolding t_def by (rule length_dropWhile_le)
  have lu: "length u \<le> length t" unfolding u_def by (auto split: list.splits)
  have lv: "length v \<le> length u" unfolding v_def by (rule length_strip_right)
  from parse_digits_bounds [OF r(1)] have rb: "0 \<le> r" "r < 10 ^ length v" by auto
  show ?thesis
  proof (cases neg)
    case True
    then have "length u < length t" unfolding u_def neg_def by (auto split: list.splits)
    with lt lv have "length v \<le> length s - 1" by simp
    then have "(10::int) ^ length v \<le> 10 ^ (length s - 1)" by (intro power_increasing) auto
    with rb(2) have a: "r < 10 ^ (length s - 1)" by (rule less_le_trans)
    have b: "(0::int) < 10 ^ length s" by simp
    from r(2) True have n: "n = - r" by simp
    from a b rb(1) n show ?thesis by linarith
  next
    case False
    from lt lu lv have "length v \<le> length s" by simp
    then have "(10::int) ^ length v \<le> 10 ^ length s" by (intro power_increasing) auto
    with rb(2) have a: "r < 10 ^ length s" by (rule less_le_trans)
    have b: "(0::int) < 10 ^ (length s - 1)" by simp
    from r(2) False have n: "n = r" by simp
    from a b rb(1) n show ?thesis by linarith
  qed
qed








lemma getUnit_total: "\<exists>u. getUnit m (f0 # fs) = Inr u"
  by (simp add: getUnit_def split: option.splits)



subsection \<open>The value of a decoded line\<close>

lemma chrToInt_range: "chrToInt c = Inr n \<Longrightarrow> 0 \<le> n \<and> n \<le> 15"
  by (auto simp: chrToInt_def Let_def ord_def split: if_splits)

lemma offset_range: "- 12 \<le> getExponentOffsetForUnit u \<and> getExponentOffsetForUnit u \<le> 0"
  by (simp add: getExponentOffsetForUnit_def)

lemma exponent_le:
  "e0 \<le> 15 \<Longrightarrow> (if c then e0 - 2 else e0) + getExponentOffsetForUnit u \<le> 15"
  using offset_range [of u] by (cases c) simp_all

lemma value_rounding:
  assumes b: "\<bar>b\<bar> \<le> 9999" and E: "E \<le> 15"
  shows "(0 \<le> E \<longrightarrow> valof (fmul (float_of_int b) (py_pow10 E)) = real_of_int b * 10 ^ nat E)
    \<and> \<bar>valof (fmul (float_of_int b) (py_pow10 E)) - real_of_int b * 10 powi E\<bar>
        \<le> \<bar>real_of_int b * 10 powi E\<bar> / 2 ^ 51"
proof (cases "0 \<le> E")
  case True
  from value_exact [OF b True E]
  have x: "valof (fmul (float_of_int b) (py_pow10 E)) = real_of_int b * 10 ^ nat E" .
  have z: "\<bar>valof (fmul (float_of_int b) (py_pow10 E)) - real_of_int b * 10 powi E\<bar>
        \<le> \<bar>real_of_int b * 10 powi E\<bar> / 2 ^ 51"
  proof -
    have "(10::real) powi E = 10 ^ nat E" using True by (simp add: power_int_def)
    with x have "valof (fmul (float_of_int b) (py_pow10 E)) - real_of_int b * 10 powi E = 0"
      by simp
    then have "\<bar>valof (fmul (float_of_int b) (py_pow10 E)) - real_of_int b * 10 powi E\<bar> = 0"
      by simp
    also have "0 \<le> \<bar>real_of_int b * 10 powi E\<bar> / 2 ^ 51" by simp
    finally show ?thesis .
  qed
  from x z show ?thesis by blast
next
  case False
  then have neg: "E < 0" by simp
  from b have "\<bar>b\<bar> \<le> 2 ^ 53" by simp
  from value_error [OF this neg] False show ?thesis by simp
qed

text \<open>No decoded value comes near the ends of the exponent range of binary64.\<close>

lemma exponent_ge:
  "0 \<le> e0 \<Longrightarrow>
   - 12 \<le> (if u = ''V'' \<and> e0 AND 4 \<noteq> 0 then e0 - 2 else e0) + getExponentOffsetForUnit u"
  using offset_range [of u]
  by (cases "u = ''V'' \<and> e0 AND 4 \<noteq> 0") (simp_all add: getExponentOffsetForUnit_def)

lemma value_range:
  assumes b: "\<bar>b\<bar> \<le> 9999" and E: "- 12 \<le> E" "E \<le> 15"
  shows "valof (fmul (float_of_int b) (py_pow10 E)) = 0
    \<or> (1 / 10 ^ 13 \<le> \<bar>valof (fmul (float_of_int b) (py_pow10 E))\<bar>
       \<and> \<bar>valof (fmul (float_of_int b) (py_pow10 E))\<bar> \<le> 10 ^ 20)"
proof -
  define w where "w = valof (fmul (float_of_int b) (py_pow10 E))"
  define x where "x = real_of_int b * 10 powi E"
  from value_rounding [OF b E(2)] have d: "\<bar>w - x\<bar> \<le> \<bar>x\<bar> / 2 ^ 51"
    by (simp only: w_def x_def)
  have h: "\<bar>x\<bar> / 2 ^ 51 \<le> \<bar>x\<bar> / 2"
    by (intro divide_left_mono) simp_all
  show ?thesis
  proof (cases "b = 0")
    case True
    then have "x = 0" by (simp add: x_def)
    with d have "w = 0" by simp
    then show ?thesis by (simp add: w_def)
  next
    case False
    then have b1: "1 \<le> \<bar>real_of_int b\<bar>" by linarith
    have b2: "\<bar>real_of_int b\<bar> \<le> 9999" using b by linarith
    have p1: "(10::real) powi (- 12) \<le> 10 powi E"
      using E(1) by (intro power_int_increasing) simp_all
    have p2: "(10::real) powi E \<le> 10 powi 15"
      using E(2) by (intro power_int_increasing) simp_all
    have p0: "(0::real) \<le> 10 powi E" by simp
    have ax: "\<bar>x\<bar> = \<bar>real_of_int b\<bar> * 10 powi E" by (simp add: x_def abs_mult)
    have e12: "(10::real) powi (- 12) = 1 / 10 ^ 12" by (simp add: power_int_def field_simps)
    have e15: "(10::real) powi 15 = 10 ^ 15" by (simp add: power_int_def)
    have "1 * (1 / 10 ^ 12) \<le> \<bar>real_of_int b\<bar> * 10 powi E"
      using b1 p1 [unfolded e12] by (intro mult_mono) simp_all
    then have lo: "1 / 10 ^ 12 \<le> \<bar>x\<bar>" by (simp only: ax mult_1)
    have "\<bar>real_of_int b\<bar> * 10 powi E \<le> 9999 * 10 ^ 15"
      using b2 p2 [unfolded e15] p0 by (intro mult_mono) simp_all
    then have hi: "\<bar>x\<bar> \<le> 9999 * 10 ^ 15" by (simp only: ax)
    from d h have dw: "\<bar>x\<bar> / 2 \<le> \<bar>w\<bar>" "\<bar>w\<bar> \<le> 2 * \<bar>x\<bar>" by linarith+
    have n1: "(1::real) / 10 ^ 13 \<le> 1 / 10 ^ 12 / 2" by simp
    have n2: "2 * (9999 * 10 ^ 15) \<le> (10::real) ^ 20" by simp
    from lo have "1 / 10 ^ 12 / 2 \<le> \<bar>x\<bar> / 2" by (rule divide_right_mono) simp
    with n1 have "1 / 10 ^ 13 \<le> \<bar>x\<bar> / 2" by (rule order_trans)
    from this dw(1) have r1: "1 / 10 ^ 13 \<le> \<bar>w\<bar>" by (rule order_trans)
    from hi have "2 * \<bar>x\<bar> \<le> 2 * (9999 * 10 ^ 15)" by (rule mult_left_mono) simp
    with dw(2) have "\<bar>w\<bar> \<le> 2 * (9999 * 10 ^ 15)" by (rule order_trans)
    from this n2 have r2: "\<bar>w\<bar> \<le> 10 ^ 20" by (rule order_trans)
    from r1 r2 have "1 / 10 ^ 13 \<le> \<bar>w\<bar> \<and> \<bar>w\<bar> \<le> 10 ^ 20" by (rule conjI)
    then show ?thesis unfolding w_def by (rule disjI2)
  qed
qed

lemma read_value_range:
  assumes "read raw = Inr (Some (v, u, t, fd))"
  shows "v = 0 \<or> (1 / 10 ^ 13 \<le> \<bar>v\<bar> \<and> \<bar>v\<bar> \<le> 10 ^ 20)"
proof -
  from read_SomeD [OF assms] obtain e0 b and f0 :: int where len: "length raw = 11"
    and e0: "chrToInt (raw ! 0) = Inr e0" and b: "py_int (slice 1 5 raw) = Inr b"
    and v: "v = (if f0 AND 4 \<noteq> 0 then - 1 else 1) *
           valof (fmul (float_of_int b)
             (py_pow10 ((if u = ''V'' \<and> e0 AND 4 \<noteq> 0 then e0 - 2 else e0)
                        + getExponentOffsetForUnit u)))"
    by blast
  define E where "E = (if u = ''V'' \<and> e0 AND 4 \<noteq> 0 then e0 - 2 else e0)
                        + getExponentOffsetForUnit u"
  define w where "w = valof (fmul (float_of_int b) (py_pow10 E))"
  from len have l4: "length (slice 1 5 raw) = 4" by (simp add: slice_def)
  from py_int_bounds [OF b] l4 have "- (10 ^ 3) < b" "b < 10 ^ 4" by simp_all
  then have bb: "\<bar>b\<bar> \<le> 9999" by simp
  from chrToInt_range [OF e0] have r: "0 \<le> e0" "e0 \<le> 15" by simp_all
  from r(2) have E2: "E \<le> 15" unfolding E_def by (rule exponent_le)
  from r(1) have E1: "- 12 \<le> E" unfolding E_def by (rule exponent_ge)
  from value_range [OF bb E1 E2]
  have w: "w = 0 \<or> (1 / 10 ^ 13 \<le> \<bar>w\<bar> \<and> \<bar>w\<bar> \<le> 10 ^ 20)" by (simp only: w_def)
  from v have "v = - w \<or> v = w" by (simp add: w_def E_def)
  with w show ?thesis by auto
qed

subsection \<open>Lines that decode\<close>

lemma read_returns:
  assumes "list_all (\<lambda>b. ord b < 128) raw" and "length raw = 11"
    and "chrToInt (raw ! 5) = Inr m" and "measurement_type_table m = Some t"
    and "chrToInt (raw ! 6) = Inr f0" and "chrToInt (raw ! 7) = Inr f1"
    and "chrToInt (raw ! 8) = Inr f2" and "chrToInt (raw ! 0) = Inr e0"
    and "py_int (slice 1 5 raw) = Inr b"
  shows "\<exists>v u fd. read raw = Inr (Some (v, u, t, fd))"
proof -
  from assms(2) have ne: "\<not> (raw = [] \<or> length raw \<noteq> 11)" by auto
  from assms(1) have dec: "decode_ascii raw = Inr raw" by (simp add: decode_ascii_def)
  have "chrToInt_each [raw ! 6, raw ! 7, raw ! 8] = Inr [f0, f1, f2]"
    using assms(5-7) by simp
  then have fl: "chrToInt_each (slice 6 9 raw) = Inr [f0, f1, f2]"
    using assms(2) by (simp only: slice_flags)
  from getUnit_total obtain u where u: "getUnit m [f0, f1, f2] = Inr u" by blast
  show ?thesis
    unfolding read_def
    by (simp only: dec ne assms(3) assms(4) fl u assms(8) assms(9) Let_def
        sum.case option.case if_False) blast
qed

section \<open>Nibble characters\<close>

text \<open>
  C7 (as the code has it). For every character \<open>c\<close>, \<open>chrToInt\<close> returns the code point
  of \<open>c\<close> minus the code point of the character 0 when \<open>c\<close> lies between the characters
  0 and ? (code points 48 to 63), and the result is then between 0 and 15; for every
  other character it raises the one TypeError "Invalid numeric character", whose
  value holds no position.
\<close>

theorem chrToInt_nibble:
  "chrToInt c =
     (if 48 \<le> ord c \<and> ord c \<le> 63 then Inr (ord c - ord CHR ''0'')
      else Inl (TypeError ''Invalid numeric character''))
   \<and> (case chrToInt c of
        Inr n \<Rightarrow> 0 \<le> n \<and> n \<le> 15
      | Inl e \<Rightarrow> e = TypeError ''Invalid numeric character'')"
  by (auto simp: chrToInt_def Let_def ord_def)

text \<open>
  C7 as stated asks for an error that names the offending position. A bad character
  at position 0 and a bad character at position 6 raise the very same exception value.
\<close>

theorem chrToInt_error_has_no_position:
  "read (''A1234;000'' @ crlf) = Inl (TypeError ''Invalid numeric character'')
   \<and> read (''01234;A00'' @ crlf) = Inl (TypeError ''Invalid numeric character'')"
  by (simp add: eval_defs)

section \<open>Units and exponent offsets\<close>

text \<open>
  C6. \<open>getUnit\<close> returns V, Hz, Ohm, Ohm, F, A, V, uA, the empty string and mA for the kind
  codes 1, 2, 3, 5, 6, 9, 11, 13, 14 and 15, whatever the flags are, so the three
  current codes 9, 13 and 15 keep three units; \<open>getExponentOffsetForUnit\<close> is -3 for V,
  -1 for Ohm, -2 for A, -2 for mA, -1 for uA, -12 for F and 0 for every other string.
\<close>

theorem getUnit_static_and_offsets:
  "getUnit 1 fl = Inr ''V'' \<and> getUnit 2 fl = Inr ''Hz'' \<and> getUnit 3 fl = Inr ''Ohm''
   \<and> getUnit 5 fl = Inr ''Ohm'' \<and> getUnit 6 fl = Inr ''F'' \<and> getUnit 9 fl = Inr ''A''
   \<and> getUnit 11 fl = Inr ''V'' \<and> getUnit 13 fl = Inr ''uA'' \<and> getUnit 14 fl = Inr []
   \<and> getUnit 15 fl = Inr ''mA''
   \<and> getExponentOffsetForUnit u =
       (if u = ''V'' then - 3 else if u = ''Ohm'' then - 1 else if u = ''A'' then - 2
        else if u = ''mA'' then - 2 else if u = ''uA'' then - 1 else if u = ''F'' then - 12
        else 0)"
  by (simp add: getUnit_def static_units_def getExponentOffsetForUnit_def)

section \<open>Magnitude prefixes\<close>

text \<open>
  C3 as stated sends 0.0000000005 to 0.5 with prefix n. The value is below the first
  threshold 1e-9, so the code multiplies it by 1e12 and answers with prefix p.
\<close>

theorem prettyValueFormat_half_nano_is_pico:
  "prettyValueFormat (5 / 10 ^ 10) ''V'' = (500, ''pV'')
   \<and> prettyValueFormat (5 / 10 ^ 10) ''V'' \<noteq> (5 / 10, ''nV'')"
  by (simp add: prettyValueFormat_def)

text \<open>
  C3 (as the code has it). \<open>prettyValueFormat\<close> maps 0.0000000005 to that value times
  1e12 (500 in exact arithmetic) with the unit prefixed by p, maps 1500 to 1.5 with the
  unit prefixed by k, and returns 0 with the unit unchanged.
\<close>

theorem prettyValueFormat_examples:
  "prettyValueFormat (5 / 10 ^ 10) unit = (5 / 10 ^ 10 * 10 ^ 12, ''p'' @ unit)
   \<and> prettyValueFormat (5 / 10 ^ 10) unit = (500, ''p'' @ unit)
   \<and> prettyValueFormat 1500 unit = (15 / 10, ''k'' @ unit)
   \<and> prettyValueFormat 0 unit = (0, unit)"
  by (simp add: prettyValueFormat_def)

text \<open>
  C10. A strictly negative value is below the first threshold 1e-9 and is not 0, so
  \<open>prettyValueFormat\<close> returns it multiplied by 1e12 with the unit prefixed by p; -5.0
  with unit V comes back as -5e12 with pV.
\<close>

theorem prettyValueFormat_negative:
  "value < 0 \<Longrightarrow> prettyValueFormat value unit = (value * 10 ^ 12, ''p'' @ unit)"
proof -
  assume neg: "value < 0"
  have "(0::real) < 1 / 10 ^ 9" by simp
  with neg have "value < 1 / 10 ^ 9" by (rule less_trans)
  with neg show ?thesis by (simp add: prettyValueFormat_def)
qed

theorem prettyValueFormat_negative_witness:
  "(- 5 :: real) < 0 \<and> prettyValueFormat (- 5) ''V'' = (- 5000000000000, ''pV'')"
  using prettyValueFormat_negative [of "- 5" "''V''"] by simp

section \<open>Measurement kinds\<close>

text \<open>
  C4. The nibble at position 5 goes through \<open>measurement_type_table\<close>, which maps 1 to
  diode, 2 to frequency, 3 to resistance, 4 to temperature, 5 to continuity, 6 to
  capacitance, 9, 13 and 15 to current, 11 to voltage, 14 to hFE and nothing else. For
  every other nibble at position 5 of an 11-character ASCII line, \<open>read\<close> raises
  KeyError with that nibble, whatever the other characters are; the nibble 7 raises
  KeyError 7. Every 11-character ASCII line whose five nibble characters are good, whose
  kind nibble is in the table and whose positions 1 to 4 \<^verbatim>\<open>int()\<close> takes is decoded to a
  reading that has the table's entry as its kind, and whenever \<open>read\<close> returns a reading,
  its kind is the table's entry. One frame is decoded for each of the eleven kind codes.
\<close>

theorem unknown_kind_raises_KeyError:
  "(\<forall>k. measurement_type_table k =
     (if k = 1 then Some ''diode'' else if k = 2 then Some ''frequency''
      else if k = 3 then Some ''resistance'' else if k = 4 then Some ''temperature''
      else if k = 5 then Some ''continuity'' else if k = 6 then Some ''capacitance''
      else if k = 9 then Some ''current'' else if k = 11 then Some ''voltage''
      else if k = 13 then Some ''current'' else if k = 14 then Some ''hFE''
      else if k = 15 then Some ''current'' else None))
   \<and> (\<forall>raw m. list_all (\<lambda>b. ord b < 128) raw \<and> length raw = 11
          \<and> chrToInt (raw ! 5) = Inr m \<and> m \<notin> {1, 2, 3, 4, 5, 6, 9, 11, 13, 14, 15}
        \<longrightarrow> read raw = Inl (KeyError m))
   \<and> (\<forall>raw v u t fd. read raw = Inr (Some (v, u, t, fd))
        \<longrightarrow> (\<exists>m. chrToInt (raw ! 5) = Inr m \<and> measurement_type_table m = Some t))
   \<and> read (''012347000'' @ crlf) = Inl (KeyError 7)
   \<and> (\<forall>raw m t f0 f1 f2 e0 b.
        list_all (\<lambda>b. ord b < 128) raw \<and> length raw = 11
        \<and> chrToInt (raw ! 5) = Inr m \<and> measurement_type_table m = Some t
        \<and> chrToInt (raw ! 6) = Inr f0 \<and> chrToInt (raw ! 7) = Inr f1
        \<and> chrToInt (raw ! 8) = Inr f2 \<and> chrToInt (raw ! 0) = Inr e0
        \<and> py_int (slice 1 5 raw) = Inr b \<longrightarrow>
        (\<exists>v u fd. read raw = Inr (Some (v, u, t, fd))))
   \<and> read (''000001000'' @ crlf) = Inr (Some (0, ''V'', ''diode'', no_flags))
   \<and> read (''000002000'' @ crlf) = Inr (Some (0, ''Hz'', ''frequency'', no_flags))
   \<and> read (''000003000'' @ crlf) = Inr (Some (0, ''Ohm'', ''resistance'', no_flags))
   \<and> read (''000004000'' @ crlf) = Inr (Some (0, degree_F, ''temperature'', no_flags))
   \<and> read (''000005000'' @ crlf) = Inr (Some (0, ''Ohm'', ''continuity'', no_flags))
   \<and> read (''000006000'' @ crlf) = Inr (Some (0, ''F'', ''capacitance'', no_flags))
   \<and> read (''000009000'' @ crlf) = Inr (Some (0, ''A'', ''current'', no_flags))
   \<and> read (''00000;000'' @ crlf) = Inr (Some (0, ''V'', ''voltage'', no_flags))
   \<and> read (''00000=000'' @ crlf) = Inr (Some (0, ''uA'', ''current'', no_flags))
   \<and> read (''00000>000'' @ crlf) = Inr (Some (0, [], ''hFE'', no_flags))
   \<and> read (''00000?000'' @ crlf) = Inr (Some (0, ''mA'', ''current'', no_flags))"
proof (intro conjI allI impI)
  fix k show "measurement_type_table k =
     (if k = 1 then Some ''diode'' else if k = 2 then Some ''frequency''
      else if k = 3 then Some ''resistance'' else if k = 4 then Some ''temperature''
      else if k = 5 then Some ''continuity'' else if k = 6 then Some ''capacitance''
      else if k = 9 then Some ''current'' else if k = 11 then Some ''voltage''
      else if k = 13 then Some ''current'' else if k = 14 then Some ''hFE''
      else if k = 15 then Some ''current'' else None)"
    by (rule measurement_type_table_eq)
next
  fix raw m
  assume h: "list_all (\<lambda>b. ord b < 128) raw \<and> length raw = 11
          \<and> chrToInt (raw ! 5) = Inr m \<and> m \<notin> {1, 2, 3, 4, 5, 6, 9, 11, 13, 14, 15}"
  then have "measurement_type_table m = None"
    by (simp add: measurement_type_table_None)
  with h show "read raw = Inl (KeyError m)"
    by (simp add: read_KeyError)
next
  fix raw v u t fd
  assume "read raw = Inr (Some (v, u, t, fd))"
  from read_SomeD [OF this]
  show "\<exists>m. chrToInt (raw ! 5) = Inr m \<and> measurement_type_table m = Some t" by blast
next
  show "read (''012347000'' @ crlf) = Inl (KeyError 7)" by (simp add: eval_defs)
next
  fix raw m t f0 f1 f2 e0 b
  assume "list_all (\<lambda>b. ord b < 128) raw \<and> length raw = 11
        \<and> chrToInt (raw ! 5) = Inr m \<and> measurement_type_table m = Some t
        \<and> chrToInt (raw ! 6) = Inr f0 \<and> chrToInt (raw ! 7) = Inr f1
        \<and> chrToInt (raw ! 8) = Inr f2 \<and> chrToInt (raw ! 0) = Inr e0
        \<and> py_int (slice 1 5 raw) = Inr b"
  then show "\<exists>v u fd. read raw = Inr (Some (v, u, t, fd))"
    by (intro read_returns [of raw m t f0 f1 f2 e0 b]) blast+
next
  show "read (''000001000'' @ crlf) = Inr (Some (0, ''V'', ''diode'', no_flags))"
    by (simp add: eval_defs float_defs)
next
  show "read (''000002000'' @ crlf) = Inr (Some (0, ''Hz'', ''frequency'', no_flags))"
    by (simp add: eval_defs float_defs)
next
  show "read (''000003000'' @ crlf) = Inr (Some (0, ''Ohm'', ''resistance'', no_flags))"
    by (simp add: eval_defs float_defs)
next
  show "read (''000004000'' @ crlf) = Inr (Some (0, degree_F, ''temperature'', no_flags))"
    by (simp add: eval_defs float_defs)
next
  show "read (''000005000'' @ crlf) = Inr (Some (0, ''Ohm'', ''continuity'', no_flags))"
    by (simp add: eval_defs float_defs)
next
  show "read (''000006000'' @ crlf) = Inr (Some (0, ''F'', ''capacitance'', no_flags))"
    by (simp add: eval_defs float_defs)
next
  show "read (''000009000'' @ crlf) = Inr (Some (0, ''A'', ''current'', no_flags))"
    by (simp add: eval_defs float_defs)
next
  show "read (''00000;000'' @ crlf) = Inr (Some (0, ''V'', ''voltage'', no_flags))"
    by (simp add: eval_defs float_defs)
next
  show "read (''00000=000'' @ crlf) = Inr (Some (0, ''uA'', ''current'', no_flags))"
    by (simp add: eval_defs float_defs)
next
  show "read (''00000>000'' @ crlf) = Inr (Some (0, [], ''hFE'', no_flags))"
    by (simp add: eval_defs float_defs)
next
  show "read (''00000?000'' @ crlf) = Inr (Some (0, ''mA'', ''current'', no_flags))"
    by (simp add: eval_defs float_defs)
qed

theorem unknown_kind_raises_KeyError_witness:
  "list_all (\<lambda>b. ord b < 128) (''412347800'' @ crlf) \<and> length (''412347800'' @ crlf) = 11
   \<and> chrToInt ((''412347800'' @ crlf) ! 5) = Inr 7
   \<and> (7::int) \<notin> {1, 2, 3, 4, 5, 6, 9, 11, 13, 14, 15}
   \<and> read (''412347800'' @ crlf) = Inl (KeyError 7)
   \<and> list_all (\<lambda>b. ord b < 128) (''41234;000'' @ crlf) \<and> length (''41234;000'' @ crlf) = 11
   \<and> chrToInt ((''41234;000'' @ crlf) ! 5) = Inr 11
   \<and> measurement_type_table 11 = Some ''voltage''
   \<and> chrToInt ((''41234;000'' @ crlf) ! 6) = Inr 0 \<and> chrToInt ((''41234;000'' @ crlf) ! 7) = Inr 0
   \<and> chrToInt ((''41234;000'' @ crlf) ! 8) = Inr 0 \<and> chrToInt ((''41234;000'' @ crlf) ! 0) = Inr 4
   \<and> py_int (slice 1 5 (''41234;000'' @ crlf)) = Inr 1234
   \<and> (\<exists>v u fd. read (''41234;000'' @ crlf) = Inr (Some (v, u, ''voltage'', fd)))"
proof -
  have pre: "list_all (\<lambda>b. ord b < 128) (''412347800'' @ crlf) \<and> length (''412347800'' @ crlf) = 11
     \<and> chrToInt ((''412347800'' @ crlf) ! 5) = Inr 7
     \<and> (7::int) \<notin> {1, 2, 3, 4, 5, 6, 9, 11, 13, 14, 15}"
    by (simp add: crlf_def ord_def chrToInt_def)
  have pre2: "list_all (\<lambda>b. ord b < 128) (''41234;000'' @ crlf) \<and> length (''41234;000'' @ crlf) = 11
     \<and> chrToInt ((''41234;000'' @ crlf) ! 5) = Inr 11
     \<and> measurement_type_table 11 = Some ''voltage''
     \<and> chrToInt ((''41234;000'' @ crlf) ! 6) = Inr 0 \<and> chrToInt ((''41234;000'' @ crlf) ! 7) = Inr 0
     \<and> chrToInt ((''41234;000'' @ crlf) ! 8) = Inr 0 \<and> chrToInt ((''41234;000'' @ crlf) ! 0) = Inr 4
     \<and> py_int (slice 1 5 (''41234;000'' @ crlf)) = Inr 1234"
    by (simp add: crlf_def ord_def chrToInt_def measurement_type_table_def slice_def py_int_def
        is_space_def is_digit_def digit_val_def parse_digits_def)
  from unknown_kind_raises_KeyError
  have a: "\<forall>raw m. list_all (\<lambda>b. ord b < 128) raw \<and> length raw = 11
          \<and> chrToInt (raw ! 5) = Inr m \<and> m \<notin> {1, 2, 3, 4, 5, 6, 9, 11, 13, 14, 15}
        \<longrightarrow> read raw = Inl (KeyError m)" by (elim conjE)
  from unknown_kind_raises_KeyError
  have b: "\<forall>raw m t f0 f1 f2 e0 b.
        list_all (\<lambda>b. ord b < 128) raw \<and> length raw = 11
        \<and> chrToInt (raw ! 5) = Inr m \<and> measurement_type_table m = Some t
        \<and> chrToInt (raw ! 6) = Inr f0 \<and> chrToInt (raw ! 7) = Inr f1
        \<and> chrToInt (raw ! 8) = Inr f2 \<and> chrToInt (raw ! 0) = Inr e0
        \<and> py_int (slice 1 5 raw) = Inr b \<longrightarrow>
        (\<exists>v u fd. read raw = Inr (Some (v, u, t, fd)))" by (elim conjE)
  from a pre have r1: "read (''412347800'' @ crlf) = Inl (KeyError 7)" by blast
  from b pre2 have r2: "\<exists>v u fd. read (''41234;000'' @ crlf) = Inr (Some (v, u, ''voltage'', fd))"
    by blast
  from pre pre2 r1 r2 show ?thesis by blast
qed

section \<open>Temperature\<close>

text \<open>
  C8. For kind code 4 the unit is degree C when bit 3 of the first flag nibble is set and
  degree F when it is clear: for \<open>getUnit\<close> on any non-empty flag list, and for every
  frame that \<open>read\<close> decodes with kind nibble 4.
\<close>

theorem temperature_unit:
  "(\<forall>f0 fs. getUnit 4 (f0 # fs) = Inr (if f0 AND 8 \<noteq> 0 then degree_C else degree_F))
   \<and> (\<forall>raw v u t fd f0.
          read raw = Inr (Some (v, u, t, fd)) \<and> chrToInt (raw ! 5) = Inr 4
          \<and> chrToInt (raw ! 6) = Inr f0
        \<longrightarrow> u = (if f0 AND 8 \<noteq> 0 then degree_C else degree_F))
   \<and> read (''412344800'' @ crlf) = Inr (Some (12340000, [CHR 0xB0, CHR ''C''], ''temperature'', temp_flags))
   \<and> read (''412344000'' @ crlf) = Inr (Some (12340000, [CHR 0xB0, CHR ''F''], ''temperature'', no_flags))"
proof (intro conjI allI impI)
  fix f0 :: int and fs
  show "getUnit 4 (f0 # fs) = Inr (if f0 AND 8 \<noteq> 0 then degree_C else degree_F)"
    by (rule getUnit_temperature)
next
  fix raw v u t fd f0
  assume h: "read raw = Inr (Some (v, u, t, fd)) \<and> chrToInt (raw ! 5) = Inr 4
          \<and> chrToInt (raw ! 6) = Inr f0"
  then have r: "read raw = Inr (Some (v, u, t, fd))" by simp
  from read_SomeD [OF r] h obtain f1 f2 where "getUnit 4 [f0, f1, f2] = Inr u"
    by auto
  then show "u = (if f0 AND 8 \<noteq> 0 then degree_C else degree_F)"
    by (simp add: getUnit_temperature)
next
  show "read (''412344800'' @ crlf) = Inr (Some (12340000, [CHR 0xB0, CHR ''C''], ''temperature'', temp_flags))"
    by (simp add: eval_defs float_defs temp_flags_def)
next
  show "read (''412344000'' @ crlf) = Inr (Some (12340000, [CHR 0xB0, CHR ''F''], ''temperature'', no_flags))"
    by (simp add: eval_defs float_defs)
qed

theorem temperature_unit_witness:
  "read (''412344800'' @ crlf) = Inr (Some (12340000, degree_C, ''temperature'', temp_flags))
   \<and> chrToInt ((''412344800'' @ crlf) ! 5) = Inr 4
   \<and> chrToInt ((''412344800'' @ crlf) ! 6) = Inr 8
   \<and> degree_C = (if (8::int) AND 8 \<noteq> 0 then degree_C else degree_F)"
proof -
  have pre: "read (''412344800'' @ crlf) = Inr (Some (12340000, degree_C, ''temperature'', temp_flags))
     \<and> chrToInt ((''412344800'' @ crlf) ! 5) = Inr 4
     \<and> chrToInt ((''412344800'' @ crlf) ! 6) = Inr 8"
    by (simp add: eval_defs float_defs temp_flags_def)
  from temperature_unit
  have "\<forall>raw v u t fd f0.
          read raw = Inr (Some (v, u, t, fd)) \<and> chrToInt (raw ! 5) = Inr 4
          \<and> chrToInt (raw ! 6) = Inr f0
        \<longrightarrow> u = (if f0 AND 8 \<noteq> 0 then degree_C else degree_F)" by (elim conjE)
  with pre show ?thesis by blast
qed

section \<open>The fallback unit\<close>

text \<open>
  C9. No frame that \<open>read\<close> decodes has the unit "???": every kind code of
  \<open>measurement_type_table\<close> is a key of \<open>static_units\<close> or is the temperature code 4.
\<close>

theorem unit_never_fallback:
  "(\<forall>raw v u t fd. read raw = Inr (Some (v, u, t, fd)) \<longrightarrow> u \<noteq> ''???'')
   \<and> (\<forall>m. measurement_type_table m \<noteq> None \<longrightarrow> static_units m \<noteq> None \<or> m = 4)"
proof (intro conjI allI impI)
  fix raw v u t fd
  assume "read raw = Inr (Some (v, u, t, fd))"
  from read_SomeD [OF this] obtain m f0 f1 f2
    where "measurement_type_table m = Some t" and "getUnit m [f0, f1, f2] = Inr u"
    by blast
  then show "u \<noteq> ''???''" by (rule getUnit_known)
next
  fix m
  assume "measurement_type_table m \<noteq> None"
  then show "static_units m \<noteq> None \<or> m = 4"
    by (simp add: measurement_type_table_eq static_units_def split: if_splits)
qed

theorem unit_never_fallback_witness:
  "read (''41234;000'' @ crlf) = Inr (Some (valof (round_ratio 1234 10), ''V'', ''voltage'', no_flags))
   \<and> ''V'' \<noteq> ''???''"
proof -
  have pre: "read (''41234;000'' @ crlf) = Inr (Some (valof (round_ratio 1234 10), ''V'', ''voltage'', no_flags))"
    by (simp add: eval_defs float_defs)
  from unit_never_fallback
  have "\<forall>raw v u t fd. read raw = Inr (Some (v, u, t, fd)) \<longrightarrow> u \<noteq> ''???''" by (elim conjE)
  with pre show ?thesis by blast
qed

section \<open>The decoded value\<close>

text \<open>
  C1 as stated has the value equal to the base magnitude times ten to the exponent. The
  diode frame with exponent nibble 0 and base 0009 has the exponent -3, and \<open>read\<close>
  returns the double 0.009000000000000001 (mantissa 5188146770730812, binary exponent
  -59): that is neither the number 9 * 10^-3 nor the double nearest to it, which has
  the mantissa 5188146770730811.
\<close>

theorem read_value_not_exact:
  "read (''000091000'' @ crlf)
     = Inr (Some (5188146770730812 / 2 ^ 59, ''V'', ''diode'', no_flags))
   \<and> (5188146770730812 / 2 ^ 59 :: real) \<noteq> 9 * 10 powi (0 - 3)
   \<and> valof (round_ratio 9 (10 ^ 3)) = 5188146770730811 / 2 ^ 59
   \<and> (5188146770730812 / 2 ^ 59 :: real) \<noteq> valof (round_ratio 9 (10 ^ 3))"
  by (simp add: eval_defs float_defs)

text \<open>
  C1 (as the code has it). For every frame that \<open>read\<close> decodes, the value is the float
  product of the base magnitude (positions 1 to 4) and \<^verbatim>\<open>10**exponent\<close>, negated exactly
  when bit 2 of the first flag nibble is set. That product is the base magnitude times
  ten to the exponent exactly when the exponent is not negative; for a negative exponent
  the power of ten and the product are rounded one after the other, and the product is
  within the relative error \<open>2 ^ -51\<close> of the exact number. The voltage frame with exponent
  nibble 4 and base 1234 decodes to the double 123.4 (the double nearest to 1234 / 10,
  mantissa 8683503031523738 and binary exponent -46) with unit V, the capacitance frame
  with exponent nibble 0 and base 5000 to the double 5e-9 (the double nearest to
  5 / 10^9) with unit F. And \<open>read\<close> does return a reading for every 11-character ASCII
  line whose five nibble characters are good, whose kind is in the table and whose
  positions 1 to 4 \<^verbatim>\<open>int()\<close> takes.
\<close>

theorem read_value_rounded:
  "(\<forall>raw v u t fd. read raw = Inr (Some (v, u, t, fd)) \<longrightarrow>
      (\<exists>e0 b f0.
         chrToInt (raw ! 0) = Inr e0 \<and> py_int (slice 1 5 raw) = Inr b
         \<and> chrToInt (raw ! 6) = Inr f0
         \<and> (let exponent = (if u = ''V'' \<and> e0 AND 4 \<noteq> 0 then e0 - 2 else e0)
                             + getExponentOffsetForUnit u;
                w = valof (fmul (float_of_int b) (py_pow10 exponent))
            in v = (if f0 AND 4 \<noteq> 0 then - w else w)
               \<and> (0 \<le> exponent \<longrightarrow> w = real_of_int b * 10 ^ nat exponent)
               \<and> \<bar>w - real_of_int b * 10 powi exponent\<bar>
                     \<le> \<bar>real_of_int b * 10 powi exponent\<bar> / 2 ^ 51)))
   \<and> read (''41234;000'' @ crlf)
       = Inr (Some (valof (round_ratio 1234 10), ''V'', ''voltage'', no_flags))
   \<and> valof (round_ratio 1234 10) = 8683503031523738 / 2 ^ 46
   \<and> \<bar>valof (round_ratio 1234 10) - 1234 / 10\<bar> \<le> 1234 / 10 / 2 ^ 53
   \<and> read (''050006000'' @ crlf)
       = Inr (Some (valof (round_ratio 5 (10 ^ 9)), ''F'', ''capacitance'', no_flags))
   \<and> \<bar>valof (round_ratio 5 (10 ^ 9)) - 5 / 10 ^ 9\<bar> \<le> 5 / 10 ^ 9 / 2 ^ 53
   \<and> read (''41234;400'' @ crlf)
       = Inr (Some (- valof (round_ratio 1234 10), ''V'', ''voltage'', sign_flags))
   \<and> (\<forall>raw m t f0 f1 f2 e0 b.
        list_all (\<lambda>b. ord b < 128) raw \<and> length raw = 11
        \<and> chrToInt (raw ! 5) = Inr m \<and> measurement_type_table m = Some t
        \<and> chrToInt (raw ! 6) = Inr f0 \<and> chrToInt (raw ! 7) = Inr f1
        \<and> chrToInt (raw ! 8) = Inr f2 \<and> chrToInt (raw ! 0) = Inr e0
        \<and> py_int (slice 1 5 raw) = Inr b \<longrightarrow>
        (\<exists>v u fd. read raw = Inr (Some (v, u, t, fd))))"
proof (intro conjI allI impI)
  fix raw v u t fd
  assume "read raw = Inr (Some (v, u, t, fd))"
  from read_SomeD [OF this] obtain e0 b f0 where len: "length raw = 11"
    and e0: "chrToInt (raw ! 0) = Inr e0" and b: "py_int (slice 1 5 raw) = Inr b"
    and f0: "chrToInt (raw ! 6) = Inr f0"
    and v: "v = (if f0 AND 4 \<noteq> 0 then - 1 else 1) *
           valof (fmul (float_of_int b)
             (py_pow10 ((if u = ''V'' \<and> e0 AND 4 \<noteq> 0 then e0 - 2 else e0)
                        + getExponentOffsetForUnit u)))"
    by blast
  define E where "E = (if u = ''V'' \<and> e0 AND 4 \<noteq> 0 then e0 - 2 else e0)
                        + getExponentOffsetForUnit u"
  from len have l4: "length (slice 1 5 raw) = 4" by (simp add: slice_def)
  from py_int_bounds [OF b] l4 have "- (10 ^ 3) < b" "b < 10 ^ 4" by simp_all
  then have bb: "\<bar>b\<bar> \<le> 9999" by simp
  from chrToInt_range [OF e0] have "e0 \<le> 15" by simp
  then have EE: "E \<le> 15" unfolding E_def by (rule exponent_le)
  note r = value_rounding [OF bb EE]
  from v have "v = (if f0 AND 4 \<noteq> 0 then - valof (fmul (float_of_int b) (py_pow10 E))
                    else valof (fmul (float_of_int b) (py_pow10 E)))"
    by (simp add: E_def)
  with r have "(let exponent = E; w = valof (fmul (float_of_int b) (py_pow10 exponent))
            in v = (if f0 AND 4 \<noteq> 0 then - w else w)
               \<and> (0 \<le> exponent \<longrightarrow> w = real_of_int b * 10 ^ nat exponent)
               \<and> \<bar>w - real_of_int b * 10 powi exponent\<bar>
                     \<le> \<bar>real_of_int b * 10 powi exponent\<bar> / 2 ^ 51)"
    unfolding Let_def by blast
  with e0 b f0 show "\<exists>e0 b f0.
         chrToInt (raw ! 0) = Inr e0 \<and> py_int (slice 1 5 raw) = Inr b
         \<and> chrToInt (raw ! 6) = Inr f0
         \<and> (let exponent = (if u = ''V'' \<and> e0 AND 4 \<noteq> 0 then e0 - 2 else e0)
                             + getExponentOffsetForUnit u;
                w = valof (fmul (float_of_int b) (py_pow10 exponent))
            in v = (if f0 AND 4 \<noteq> 0 then - w else w)
               \<and> (0 \<le> exponent \<longrightarrow> w = real_of_int b * 10 ^ nat exponent)
               \<and> \<bar>w - real_of_int b * 10 powi exponent\<bar>
                     \<le> \<bar>real_of_int b * 10 powi exponent\<bar> / 2 ^ 51)"
    unfolding E_def by blast
next
  show "read (''41234;000'' @ crlf)
       = Inr (Some (valof (round_ratio 1234 10), ''V'', ''voltage'', no_flags))"
    by (simp add: eval_defs float_defs)
next
  show "valof (round_ratio 1234 10) = 8683503031523738 / 2 ^ 46"
    by (simp add: float_defs)
next
  have "\<bar>valof (round_ratio 1234 10) - real_of_int 1234 / real_of_int 10\<bar>
        \<le> \<bar>real_of_int 1234 / real_of_int 10\<bar> / 2 ^ 53"
    by (rule round_ratio_error) simp
  then show "\<bar>valof (round_ratio 1234 10) - 1234 / 10\<bar> \<le> 1234 / 10 / 2 ^ 53" by simp
next
  show "read (''050006000'' @ crlf)
       = Inr (Some (valof (round_ratio 5 (10 ^ 9)), ''F'', ''capacitance'', no_flags))"
    by (simp add: eval_defs float_defs)
next
  have "\<bar>valof (round_ratio 5 (10 ^ 9)) - real_of_int 5 / real_of_int (10 ^ 9)\<bar>
        \<le> \<bar>real_of_int 5 / real_of_int (10 ^ 9)\<bar> / 2 ^ 53"
    by (rule round_ratio_error) simp
  then show "\<bar>valof (round_ratio 5 (10 ^ 9)) - 5 / 10 ^ 9\<bar> \<le> 5 / 10 ^ 9 / 2 ^ 53" by simp
next
  show "read (''41234;400'' @ crlf)
       = Inr (Some (- valof (round_ratio 1234 10), ''V'', ''voltage'', sign_flags))"
    by (simp add: eval_defs float_defs sign_flags_def)
next
  fix raw m t f0 f1 f2 e0 b
  assume "list_all (\<lambda>b. ord b < 128) raw \<and> length raw = 11
        \<and> chrToInt (raw ! 5) = Inr m \<and> measurement_type_table m = Some t
        \<and> chrToInt (raw ! 6) = Inr f0 \<and> chrToInt (raw ! 7) = Inr f1
        \<and> chrToInt (raw ! 8) = Inr f2 \<and> chrToInt (raw ! 0) = Inr e0
        \<and> py_int (slice 1 5 raw) = Inr b"
  then show "\<exists>v u fd. read raw = Inr (Some (v, u, t, fd))"
    by (intro read_returns [of raw m t f0 f1 f2 e0 b]) blast+
qed

theorem read_value_rounded_witness:
  "read (''412344400'' @ crlf) = Inr (Some (- 12340000, degree_F, ''temperature'', sign_flags))
   \<and> chrToInt ((''412344400'' @ crlf) ! 0) = Inr 4
   \<and> py_int (slice 1 5 (''412344400'' @ crlf)) = Inr 1234
   \<and> chrToInt ((''412344400'' @ crlf) ! 6) = Inr 4
   \<and> (4::int) AND 4 \<noteq> 0
   \<and> (0::int) \<le> 4 + getExponentOffsetForUnit degree_F
   \<and> valof (fmul (float_of_int 1234) (py_pow10 (4 + getExponentOffsetForUnit degree_F)))
       = real_of_int 1234 * 10 ^ nat (4 + getExponentOffsetForUnit degree_F)
   \<and> (- 12340000 :: real)
       = - valof (fmul (float_of_int 1234) (py_pow10 (4 + getExponentOffsetForUnit degree_F)))"
proof -
  have pre: "read (''412344400'' @ crlf)
      = Inr (Some (- 12340000, degree_F, ''temperature'', sign_flags))"
    by (simp add: eval_defs float_defs sign_flags_def)
  have c: "chrToInt ((''412344400'' @ crlf) ! 0) = Inr 4"
    "py_int (slice 1 5 (''412344400'' @ crlf)) = Inr 1234"
    "chrToInt ((''412344400'' @ crlf) ! 6) = Inr 4"
    by (simp_all add: ord_def chrToInt_def slice_def py_int_def is_space_def is_digit_def
        digit_val_def parse_digits_def crlf_def)
  have d: "degree_F \<noteq> ''V''" by (simp add: degree_F_def)
  from read_value_rounded
  have "\<forall>raw v u t fd. read raw = Inr (Some (v, u, t, fd)) \<longrightarrow>
      (\<exists>e0 b f0.
         chrToInt (raw ! 0) = Inr e0 \<and> py_int (slice 1 5 raw) = Inr b
         \<and> chrToInt (raw ! 6) = Inr f0
         \<and> (let exponent = (if u = ''V'' \<and> e0 AND 4 \<noteq> 0 then e0 - 2 else e0)
                             + getExponentOffsetForUnit u;
                w = valof (fmul (float_of_int b) (py_pow10 exponent))
            in v = (if f0 AND 4 \<noteq> 0 then - w else w)
               \<and> (0 \<le> exponent \<longrightarrow> w = real_of_int b * 10 ^ nat exponent)
               \<and> \<bar>w - real_of_int b * 10 powi exponent\<bar>
                     \<le> \<bar>real_of_int b * 10 powi exponent\<bar> / 2 ^ 51))" by (elim conjE)
  with pre obtain e0 b f0 where
    e: "chrToInt ((''412344400'' @ crlf) ! 0) = Inr e0"
    "py_int (slice 1 5 (''412344400'' @ crlf)) = Inr b"
    "chrToInt ((''412344400'' @ crlf) ! 6) = Inr f0"
    and l: "(let exponent = (if degree_F = ''V'' \<and> e0 AND 4 \<noteq> 0 then e0 - 2 else e0)
                             + getExponentOffsetForUnit degree_F;
                w = valof (fmul (float_of_int b) (py_pow10 exponent))
            in - 12340000 = (if f0 AND 4 \<noteq> 0 then - w else w)
               \<and> (0 \<le> exponent \<longrightarrow> w = real_of_int b * 10 ^ nat exponent)
               \<and> \<bar>w - real_of_int b * 10 powi exponent\<bar>
                     \<le> \<bar>real_of_int b * 10 powi exponent\<bar> / 2 ^ 51)"
    by blast
  from e c have eq: "e0 = 4" "b = 1234" "f0 = 4" by simp_all
  have s: "(4::int) AND 4 \<noteq> 0" by simp
  have o: "(0::int) \<le> 4 + getExponentOffsetForUnit degree_F"
    by (simp add: getExponentOffsetForUnit_def degree_F_def)
  have np: "\<not> (degree_F = ''V'' \<and> (4::int) AND 4 \<noteq> 0)" using d by simp
  note l' = l [unfolded Let_def eq if_P [OF s] if_not_P [OF np]]
  from l' o pre c s show ?thesis by blast
qed

section \<open>The exponent\<close>

text \<open>
  C5. For every frame that \<open>read\<close> decodes, 2 is subtracted from the exponent nibble
  exactly when the unit is V and bit 2 of the nibble is set, and the offset of the unit
  is added. The unit is V exactly for the kind codes 1 (diode) and 11 (voltage), so the
  diode frame gets the same shift as the voltage frame.
\<close>

theorem voltage_exponent_shift:
  "(\<forall>raw v u t fd. read raw = Inr (Some (v, u, t, fd)) \<longrightarrow>
      (\<exists>m e0 b f0.
         chrToInt (raw ! 5) = Inr m \<and> chrToInt (raw ! 0) = Inr e0
         \<and> py_int (slice 1 5 raw) = Inr b \<and> chrToInt (raw ! 6) = Inr f0
         \<and> (u = ''V'') = (m = 1 \<or> m = 11)
         \<and> v = (if f0 AND 4 \<noteq> 0 then - 1 else 1) *
               valof (fmul (float_of_int b)
                 (py_pow10 ((if u = ''V'' \<and> e0 AND 4 \<noteq> 0 then e0 - 2 else e0)
                            + getExponentOffsetForUnit u)))))
   \<and> (\<forall>fl. getUnit 1 fl = Inr ''V'' \<and> getUnit 11 fl = Inr ''V'')
   \<and> read (''412341000'' @ crlf)
       = Inr (Some (valof (fmul (float_of_int 1234) (py_pow10 (4 - 2 - 3))), ''V'', ''diode'', no_flags))
   \<and> read (''41234;000'' @ crlf)
       = Inr (Some (valof (fmul (float_of_int 1234) (py_pow10 (4 - 2 - 3))), ''V'', ''voltage'', no_flags))
   \<and> read (''312341000'' @ crlf)
       = Inr (Some (valof (fmul (float_of_int 1234) (py_pow10 (3 - 3))), ''V'', ''diode'', no_flags))
   \<and> read (''412343000'' @ crlf)
       = Inr (Some (valof (fmul (float_of_int 1234) (py_pow10 (4 - 1))), ''Ohm'', ''resistance'', no_flags))
   \<and> valof (fmul (float_of_int 1234) (py_pow10 (4 - 2 - 3))) = valof (round_ratio 1234 10)
   \<and> valof (fmul (float_of_int 1234) (py_pow10 (3 - 3))) = 1234
   \<and> valof (fmul (float_of_int 1234) (py_pow10 (4 - 1))) = 1234000"
proof (intro conjI allI impI)
  fix raw v u t fd
  assume "read raw = Inr (Some (v, u, t, fd))"
  from read_SomeD [OF this] obtain m f0 f1 f2 e0 b where
    a: "chrToInt (raw ! 5) = Inr m" "measurement_type_table m = Some t"
    "chrToInt (raw ! 6) = Inr f0" "getUnit m [f0, f1, f2] = Inr u"
    "chrToInt (raw ! 0) = Inr e0" "py_int (slice 1 5 raw) = Inr b"
    "v = (if f0 AND 4 \<noteq> 0 then - 1 else 1) *
           valof (fmul (float_of_int b)
             (py_pow10 ((if u = ''V'' \<and> e0 AND 4 \<noteq> 0 then e0 - 2 else e0)
                        + getExponentOffsetForUnit u)))"
    by blast
  from a(2) a(4) have "(u = ''V'') = (m = 1 \<or> m = 11)" by (rule getUnit_V)
  with a show "\<exists>m e0 b f0.
         chrToInt (raw ! 5) = Inr m \<and> chrToInt (raw ! 0) = Inr e0
         \<and> py_int (slice 1 5 raw) = Inr b \<and> chrToInt (raw ! 6) = Inr f0
         \<and> (u = ''V'') = (m = 1 \<or> m = 11)
         \<and> v = (if f0 AND 4 \<noteq> 0 then - 1 else 1) *
               valof (fmul (float_of_int b)
                 (py_pow10 ((if u = ''V'' \<and> e0 AND 4 \<noteq> 0 then e0 - 2 else e0)
                            + getExponentOffsetForUnit u)))"
    by blast
next
  fix fl show "getUnit 1 fl = Inr ''V''" by (simp add: getUnit_def static_units_def)
next
  fix fl show "getUnit 11 fl = Inr ''V''" by (simp add: getUnit_def static_units_def)
next
  show "read (''412341000'' @ crlf)
       = Inr (Some (valof (fmul (float_of_int 1234) (py_pow10 (4 - 2 - 3))), ''V'', ''diode'', no_flags))"
    by (simp add: eval_defs)
next
  show "read (''41234;000'' @ crlf)
       = Inr (Some (valof (fmul (float_of_int 1234) (py_pow10 (4 - 2 - 3))), ''V'', ''voltage'', no_flags))"
    by (simp add: eval_defs)
next
  show "read (''312341000'' @ crlf)
       = Inr (Some (valof (fmul (float_of_int 1234) (py_pow10 (3 - 3))), ''V'', ''diode'', no_flags))"
    by (simp add: eval_defs)
next
  show "read (''412343000'' @ crlf)
       = Inr (Some (valof (fmul (float_of_int 1234) (py_pow10 (4 - 1))), ''Ohm'', ''resistance'', no_flags))"
    by (simp add: eval_defs)
next
  show "valof (fmul (float_of_int 1234) (py_pow10 (4 - 2 - 3))) = valof (round_ratio 1234 10)"
    by (simp add: float_defs)
next
  show "valof (fmul (float_of_int 1234) (py_pow10 (3 - 3))) = 1234"
    by (simp add: float_defs)
next
  show "valof (fmul (float_of_int 1234) (py_pow10 (4 - 1))) = 1234000"
    by (simp add: float_defs)
qed

theorem voltage_exponent_shift_witness:
  "read (''412341000'' @ crlf) = Inr (Some (valof (round_ratio 1234 10), ''V'', ''diode'', no_flags))
   \<and> chrToInt ((''412341000'' @ crlf) ! 5) = Inr 1
   \<and> chrToInt ((''412341000'' @ crlf) ! 0) = Inr 4
   \<and> py_int (slice 1 5 (''412341000'' @ crlf)) = Inr 1234
   \<and> chrToInt ((''412341000'' @ crlf) ! 6) = Inr 0
   \<and> (4::int) AND 4 \<noteq> 0
   \<and> valof (round_ratio 1234 10)
       = 1 * valof (fmul (float_of_int 1234) (py_pow10 (4 - 2 + getExponentOffsetForUnit ''V'')))"
proof -
  have pre: "read (''412341000'' @ crlf)
      = Inr (Some (valof (round_ratio 1234 10), ''V'', ''diode'', no_flags))"
    by (simp add: eval_defs float_defs)
  have c: "chrToInt ((''412341000'' @ crlf) ! 5) = Inr 1"
    "chrToInt ((''412341000'' @ crlf) ! 0) = Inr 4"
    "py_int (slice 1 5 (''412341000'' @ crlf)) = Inr 1234"
    "chrToInt ((''412341000'' @ crlf) ! 6) = Inr 0"
    by (simp_all add: ord_def chrToInt_def slice_def py_int_def is_space_def is_digit_def
        digit_val_def parse_digits_def crlf_def)
  from voltage_exponent_shift
  have "\<forall>raw v u t fd. read raw = Inr (Some (v, u, t, fd)) \<longrightarrow>
      (\<exists>m e0 b f0.
         chrToInt (raw ! 5) = Inr m \<and> chrToInt (raw ! 0) = Inr e0
         \<and> py_int (slice 1 5 raw) = Inr b \<and> chrToInt (raw ! 6) = Inr f0
         \<and> (u = ''V'') = (m = 1 \<or> m = 11)
         \<and> v = (if f0 AND 4 \<noteq> 0 then - 1 else 1) *
               valof (fmul (float_of_int b)
                 (py_pow10 ((if u = ''V'' \<and> e0 AND 4 \<noteq> 0 then e0 - 2 else e0)
                            + getExponentOffsetForUnit u))))" by (elim conjE)
  with pre obtain m e0 b f0 where
    e: "chrToInt ((''412341000'' @ crlf) ! 5) = Inr m"
    "chrToInt ((''412341000'' @ crlf) ! 0) = Inr e0"
    "py_int (slice 1 5 (''412341000'' @ crlf)) = Inr b"
    "chrToInt ((''412341000'' @ crlf) ! 6) = Inr f0"
    and l: "valof (round_ratio 1234 10) = (if f0 AND 4 \<noteq> 0 then - 1 else 1) *
               valof (fmul (float_of_int b)
                 (py_pow10 ((if ''V'' = ''V'' \<and> e0 AND 4 \<noteq> 0 then e0 - 2 else e0)
                            + getExponentOffsetForUnit ''V'')))"
    by blast
  from e c have eq: "m = 1" "e0 = 4" "b = 1234" "f0 = 0" by simp_all
  have s: "(4::int) AND 4 \<noteq> 0" by simp
  from l have "valof (round_ratio 1234 10)
       = 1 * valof (fmul (float_of_int 1234) (py_pow10 (4 - 2 + getExponentOffsetForUnit ''V'')))"
    unfolding eq using s by simp
  with pre c s show ?thesis by blast
qed

section \<open>The base magnitude\<close>




end
